theory Spec2Isabelle
  imports Main "HOL-Library.Word" "HOL-Library.Signed_Division"
begin

section \<open>Fileset compaction (src/internal/storage/fileset/compaction.go)\<close>

subsection \<open>Data model\<close>

text \<open>
  A fileset reference (Go \<^verbatim>\<open>ID\<close>) is an opaque handle under which the metadata store
  keeps a fileset's metadata. Sizes and the level factor are Go \<^verbatim>\<open>int64\<close>: 64-bit words
  read as two's complement, so \<^verbatim>\<open>rightSize*factor\<close> wraps around as it does in Go.
\<close>

type_synonym ID = nat
type_synonym int64 = "64 word"

text \<open>
  Errors are values. \<open>Errorf\<close> is \<^verbatim>\<open>errors.Errorf\<close> with its message, \<open>NotFound\<close> a failed
  lookup in the metadata store, \<open>External\<close> any failure reported by a collaborator (a
  malformed pointer list, an I/O error, a worker's error), and \<open>Panic\<close> a Go run-time panic.
\<close>

datatype error =
    Errorf string
  | NotFound ID
  | External string
  | Panic string

text \<open>
  \<^verbatim>\<open>Primitive\<close>: only \<^verbatim>\<open>SizeBytes\<close> is read by the compaction code; the path-indexed body
  is left out.
\<close>

record Primitive =
  SizeBytes :: int64

text \<open>
  \<^verbatim>\<open>Composite\<close>: the code only calls \<^verbatim>\<open>PointsTo()\<close>, which decodes the pointer list or
  fails; the field holds the outcome of that call.
\<close>

record Composite =
  PointsTo :: "error + ID list"

text \<open>
  \<^verbatim>\<open>md.Value\<close> is \<^verbatim>\<open>*Metadata_Primitive\<close>, \<^verbatim>\<open>*Metadata_Composite\<close>, or neither (the
  \<^verbatim>\<open>default\<close> branch of the type switches): \<open>Metadata_Empty\<close>.
\<close>

datatype Metadata =
    Metadata_Primitive Primitive
  | Metadata_Composite Composite
  | Metadata_Empty

text \<open>
  Modelled from the spec: the metadata store behind \<^verbatim>\<open>s.store\<close> (its code is not in the
  sources). Section 3 says every operation creates a new reference and never changes an
  existing one, so the store is an append-only list and a reference is the position of
  its metadata in that list. \<open>levelFactor\<close> is the field \<^verbatim>\<open>s.levelFactor\<close>.
\<close>

record Storage =
  store :: "Metadata list"
  levelFactor :: int64

text \<open>
  Modelled from the spec: \<^verbatim>\<open>s.store.Get\<close> (section 6, "Metadata read: Get(id) -> Metadata,
  fails with NotFound").
\<close>

definition store_Get :: "Storage \<Rightarrow> ID \<Rightarrow> error + Metadata" where
  "store_Get s fid = (if fid < length (store s) then Inr (store s ! fid) else Inl (NotFound fid))"

text \<open>
  Modelled from the spec: section 3 says that a reference is created by an operation that
  reads its inputs and always produces a new reference. A composite therefore points to
  references that existed before it, which in the append-only store are earlier
  positions. This is the well-formedness of a store; \<open>Compose\<close> and \<open>Merge\<close> keep it.
\<close>

definition store_wellformed :: "Storage \<Rightarrow> bool" where
  "store_wellformed s =
    (\<forall>fid x ids. store_Get s fid = Inr (Metadata_Composite x) \<and> PointsTo x = Inr ids
        \<longrightarrow> (\<forall>p \<in> set ids. p < fid))"

text \<open>
  Modelled from the spec: \<^verbatim>\<open>Storage.Flatten\<close> (section 4.1; its code is not in the sources).
  It reads each reference in the order given, keeps a primitive, expands a composite in
  place, depth first, and fails with the first lookup or resolution error. The spec
  requires that only primitive references remain, so a reference with empty metadata is
  an error. The expansion follows pointers for as long as there are composites: on a
  store whose pointers form a cycle it does not return, which is the value \<open>None\<close>.
\<close>

partial_function (option) Flatten :: "Storage \<Rightarrow> ID list \<Rightarrow> (error + ID list) option" where
  "Flatten s ids =
    (case ids of
       [] \<Rightarrow> Some (Inr [])
     | fid # rest \<Rightarrow>
        (case store_Get s fid of
           Inl err \<Rightarrow> Some (Inl err)
         | Inr md \<Rightarrow>
            (case md of
               Metadata_Primitive p \<Rightarrow>
                 Option.bind (Flatten s rest)
                   (\<lambda>r. case r of Inl err \<Rightarrow> Some (Inl err)
                            | Inr flattened \<Rightarrow> Some (Inr (fid # flattened)))
             | Metadata_Composite x \<Rightarrow>
                (case PointsTo x of
                   Inl err \<Rightarrow> Some (Inl err)
                 | Inr ids2 \<Rightarrow>
                     Option.bind (Flatten s ids2)
                       (\<lambda>r2. case r2 of Inl err \<Rightarrow> Some (Inl err)
                                 | Inr flattened2 \<Rightarrow>
                          Option.bind (Flatten s rest)
                            (\<lambda>r. case r of Inl err \<Rightarrow> Some (Inl err)
                                     | Inr flattened \<Rightarrow> Some (Inr (flattened2 @ flattened)))))
             | Metadata_Empty \<Rightarrow>
                 Some (Inl (Errorf ''Flatten is not defined for empty filesets'')))))"

text \<open>
  Modelled from the spec: \<^verbatim>\<open>Storage.getPrimitive\<close> (not in the sources; section 4.3 reads
  the flattened references as primitive layers): the metadata of the reference when it is a
  primitive, an error otherwise.
\<close>

definition getPrimitive :: "Storage \<Rightarrow> ID \<Rightarrow> error + Primitive" where
  "getPrimitive s fid =
    (case store_Get s fid of
       Inl err \<Rightarrow> Inl err
     | Inr md \<Rightarrow>
        (case md of
           Metadata_Primitive prim \<Rightarrow> Inr prim
         | Metadata_Composite x \<Rightarrow> Inl (Errorf ''fileset is not primitive'')
         | Metadata_Empty \<Rightarrow> Inl (Errorf ''fileset is not primitive'')))"

subsection \<open>The compaction predicate\<close>

text \<open>\<^verbatim>\<open>getPrimitiveBatch\<close>: the loop appends each primitive to \<^verbatim>\<open>layers\<close>.\<close>

fun getPrimitiveBatch_loop :: "Storage \<Rightarrow> ID list \<Rightarrow> Primitive list \<Rightarrow> error + Primitive list" where
  "getPrimitiveBatch_loop s [] layers = Inr layers"
| "getPrimitiveBatch_loop s (fid # ids) layers =
    (case getPrimitive s fid of
       Inl err \<Rightarrow> Inl err
     | Inr prim \<Rightarrow> getPrimitiveBatch_loop s ids (layers @ [prim]))"

definition getPrimitiveBatch :: "Storage \<Rightarrow> ID list \<Rightarrow> error + Primitive list" where
  "getPrimitiveBatch s ids = getPrimitiveBatch_loop s ids []"

text \<open>
  \<^verbatim>\<open>indexOfCompacted\<close>: the loop \<^verbatim>\<open>for i := 0; i < l-1; i++\<close>, with \<open>i\<close> the loop variable.
  The test \<^verbatim>\<open>leftSize < rightSize*factor\<close> is a signed comparison with an \<^verbatim>\<open>int64\<close> product.
\<close>

function indexOfCompacted_loop :: "int64 \<Rightarrow> Primitive list \<Rightarrow> nat \<Rightarrow> nat" where
  "indexOfCompacted_loop factor inputs i =
    (let l = length inputs in
     if int i < int l - 1 then
       (let leftSize = SizeBytes (inputs ! i);
            rightSize = SizeBytes (inputs ! (i + 1))
        in if leftSize <s rightSize * factor then i
           else indexOfCompacted_loop factor inputs (i + 1))
     else l)"
  by pat_completeness auto
termination
  by (relation "measure (\<lambda>(factor, inputs, i). length inputs - i)") auto

definition indexOfCompacted :: "int64 \<Rightarrow> Primitive list \<Rightarrow> nat" where
  "indexOfCompacted factor inputs = indexOfCompacted_loop factor inputs 0"

definition isCompacted :: "int64 \<Rightarrow> Primitive list \<Rightarrow> bool" where
  "isCompacted factor layers = (indexOfCompacted factor layers = length layers)"

text \<open>
  The "compacted relationship" of the comment on \<^verbatim>\<open>indexOfCompacted\<close>,
  \<^verbatim>\<open>leftSize >= (rightSize * factor)\<close>: the negation of the loop's test, between the layers
  at \<open>j\<close> and \<open>j + 1\<close>.
\<close>

definition compactedRelationship :: "int64 \<Rightarrow> Primitive list \<Rightarrow> nat \<Rightarrow> bool" where
  "compactedRelationship factor layers j =
    (SizeBytes (layers ! (j + 1)) * factor \<le>s SizeBytes (layers ! j))"

text \<open>
  The size-ratio invariant as the spec words it (section 3:
  \<^verbatim>\<open>L[j].SizeBytes >= L[j+1].SizeBytes * levelFactor\<close>), read over the integers: the sizes
  and the factor are the signed values of the words and the product is the integer
  product. \<open>productFitsInt64\<close> says that this product is an \<^verbatim>\<open>int64\<close> value, that is, that
  the code's multiplication does not wrap around.
\<close>

definition sizeRatioInvariant :: "int64 \<Rightarrow> Primitive list \<Rightarrow> nat \<Rightarrow> bool" where
  "sizeRatioInvariant factor layers j =
    (sint (SizeBytes (layers ! (j + 1))) * sint factor \<le> sint (SizeBytes (layers ! j)))"

definition productFitsInt64 :: "int64 \<Rightarrow> Primitive list \<Rightarrow> nat \<Rightarrow> bool" where
  "productFitsInt64 factor layers j =
    (- (2 ^ 63) \<le> sint (SizeBytes (layers ! (j + 1))) * sint factor
     \<and> sint (SizeBytes (layers ! (j + 1))) * sint factor < 2 ^ 63)"

text \<open>
  \<^verbatim>\<open>Storage.IsCompacted\<close>. \<open>None\<close> only when \<open>Flatten\<close> does not return.
\<close>

definition IsCompacted :: "Storage \<Rightarrow> ID \<Rightarrow> (error + bool) option" where
  "IsCompacted s fid =
    (case store_Get s fid of
       Inl err \<Rightarrow> Some (Inl err)
     | Inr md \<Rightarrow>
        (case md of
           Metadata_Composite x \<Rightarrow>
            (case PointsTo x of
               Inl err \<Rightarrow> Some (Inl err)
             | Inr ids \<Rightarrow>
                (case Flatten s ids of
                   None \<Rightarrow> None
                 | Some (Inl err) \<Rightarrow> Some (Inl err)
                 | Some (Inr ids') \<Rightarrow>
                    (case getPrimitiveBatch s ids' of
                       Inl err \<Rightarrow> Some (Inl err)
                     | Inr layers \<Rightarrow> Some (Inr (isCompacted (levelFactor s) layers)))))
         | Metadata_Primitive p \<Rightarrow> Some (Inr True)
         | Metadata_Empty \<Rightarrow>
             Some (Inl (Errorf ''IsCompacted is not defined for empty filesets''))))"

subsection \<open>The sequential compactor\<close>

text \<open>
  What the collaborators decide and the sources do not: a record of parameters.
  \<^item> \<open>merge_output\<close>: the primitive that \<^verbatim>\<open>Merge\<close> writes for the given inputs (its size
    depends on the content), or the failure of the merge;
  \<^item> \<open>compose_failure\<close>: whether writing a new composite fails;
  \<^item> \<open>shard_ranges\<close>: the path ranges that \<^verbatim>\<open>Shard\<close> enumerates for the given inputs, in
    ascending key order, or the failure of the enumeration;
  \<^item> \<open>Concat\<close>: \<^verbatim>\<open>Storage.Concat\<close>, whose result depends on the content of the layers.
\<close>

record index_PathRange =
  Lower :: string
  Upper :: string

record externals =
  merge_output :: "Storage \<Rightarrow> ID list \<Rightarrow> error + Primitive"
  compose_failure :: "Storage \<Rightarrow> ID list \<Rightarrow> error option"
  shard_ranges :: "Storage \<Rightarrow> ID list \<Rightarrow> error + index_PathRange list"
  Concat :: "Storage \<Rightarrow> ID list \<Rightarrow> (error + ID) \<times> Storage"

text \<open>
  Modelled from the spec: \<^verbatim>\<open>Storage.Compose\<close> (section 6: "build a new composite pointing
  at existing references, no data movement"; its code is not in the sources). The new
  reference is the next position of the store.
\<close>

definition Compose :: "externals \<Rightarrow> Storage \<Rightarrow> ID list \<Rightarrow> (error + ID) \<times> Storage" where
  "Compose ext s ids =
    (case compose_failure ext s ids of
       Some err \<Rightarrow> (Inl err, s)
     | None \<Rightarrow>
        (Inr (length (store s)),
         s\<lparr>store := store s @ [Metadata_Composite \<lparr>PointsTo = Inr ids\<rparr>]\<rparr>))"

text \<open>
  Modelled from the spec: \<^verbatim>\<open>Storage.Merge\<close> (section 6: "content-combine primitive layers
  into one new primitive"; its code is not in the sources).
\<close>

definition Merge :: "externals \<Rightarrow> Storage \<Rightarrow> ID list \<Rightarrow> (error + ID) \<times> Storage" where
  "Merge ext s ids =
    (case merge_output ext s ids of
       Inl err \<Rightarrow> (Inl err, s)
     | Inr prim \<Rightarrow>
        (Inr (length (store s)), s\<lparr>store := store s @ [Metadata_Primitive prim]\<rparr>))"

text \<open>
  \<^verbatim>\<open>Storage.Compact\<close>. The first statement, \<^verbatim>\<open>ids, err := s.Flatten(ctx, ids)\<close>, assigns
  the flattened list to the parameter \<^verbatim>\<open>ids\<close>: \<open>ids0\<close> is the caller's list and \<open>ids\<close> the
  flattened one, which every later statement uses. The result carries the storage as the
  call leaves it; \<open>None\<close> is a call that does not return.
\<close>

partial_function (option) Compact ::
    "externals \<Rightarrow> ID list \<Rightarrow> Storage \<Rightarrow> ((error + ID) \<times> Storage) option" where
  "Compact ext ids0 s =
    Option.bind (Flatten s ids0)
      (\<lambda>r. case r of
          Inl err \<Rightarrow> Some (Inl err, s)
        | Inr ids \<Rightarrow>
           (case getPrimitiveBatch s ids of
              Inl err \<Rightarrow> Some (Inl err, s)
            | Inr inputs \<Rightarrow>
               (let i = indexOfCompacted (levelFactor s) inputs in
                if i = length inputs then Some (Compose ext s ids)
                else
                  (case Merge ext s (drop i ids) of
                     (Inl err, s') \<Rightarrow> Some (Inl err, s')
                   | (Inr merged, s') \<Rightarrow> Compact ext (take i ids @ [merged]) s'))))"

subsection \<open>The distributed compactor\<close>

record CompactionTask =
  Inputs :: "ID list"
  PathRange :: index_PathRange

text \<open>
  \<^verbatim>\<open>DistributedCompactor\<close>: \<open>maxFanIn\<close> is a Go \<^verbatim>\<open>int\<close>, \<open>workerFunc\<close> the injected
  \<^verbatim>\<open>CompactionBatchWorker\<close>, which may write new filesets. The field \<^verbatim>\<open>s\<close> is the storage,
  passed explicitly.
\<close>

record DistributedCompactor =
  maxFanIn :: int
  workerFunc :: "Storage \<Rightarrow> CompactionTask list \<Rightarrow> (error + ID list) \<times> Storage"

text \<open>
  Go \<^verbatim>\<open>int\<close> arithmetic (64 bits): integers with the wrap-around written out. \<open>go_quot\<close> is
  Go's \<^verbatim>\<open>/\<close> for a divisor that is not zero: it truncates towards zero.
\<close>

definition wrap_int :: "int \<Rightarrow> int" where
  "wrap_int x = (x + 2 ^ 63) mod 2 ^ 64 - 2 ^ 63"

definition go_quot :: "int \<Rightarrow> int \<Rightarrow> int" where
  "go_quot a b = wrap_int (a sdiv b)"

text \<open>
  Modelled from the spec: \<^verbatim>\<open>Storage.Shard\<close> (section 4.4; its code is not in the sources):
  it calls \<open>visit\<close> once per path range, in order, and stops at the first error of
  \<open>visit\<close>. \<open>acc\<close> is the state the callback closes over.
\<close>

fun Shard_visit ::
    "(index_PathRange \<Rightarrow> 'a \<Rightarrow> error + 'a) \<Rightarrow> index_PathRange list \<Rightarrow> 'a \<Rightarrow> error + 'a" where
  "Shard_visit visit [] acc = Inr acc"
| "Shard_visit visit (pathRange # rest) acc =
    (case visit pathRange acc of
       Inl err \<Rightarrow> Inl err
     | Inr acc' \<Rightarrow> Shard_visit visit rest acc')"

definition Shard ::
    "externals \<Rightarrow> Storage \<Rightarrow> ID list \<Rightarrow> (index_PathRange \<Rightarrow> 'a \<Rightarrow> error + 'a) \<Rightarrow> 'a \<Rightarrow> error + 'a" where
  "Shard ext s ids visit acc =
    (case shard_ranges ext s ids of
       Inl err \<Rightarrow> Inl err
     | Inr ranges \<Rightarrow> Shard_visit visit ranges acc)"

text \<open>
  \<^verbatim>\<open>shardedCompact\<close>. The callback appends one task per path range to \<^verbatim>\<open>tasks\<close> and
  returns \<^verbatim>\<open>nil\<close>.
\<close>

definition shardedCompact ::
    "DistributedCompactor \<Rightarrow> externals \<Rightarrow> ID list \<Rightarrow> Storage \<Rightarrow> (error + ID) \<times> Storage" where
  "shardedCompact c ext ids s =
    (case Shard ext s ids
            (\<lambda>pathRange tasks. Inr (tasks @ [\<lparr>Inputs = ids, PathRange = pathRange\<rparr>])) [] of
       Inl err \<Rightarrow> (Inl err, s)
     | Inr tasks \<Rightarrow>
        (case workerFunc c s tasks of
           (Inl err, s') \<Rightarrow> (Inl err, s')
         | (Inr results, s') \<Rightarrow>
            if length results \<noteq> length tasks
            then (Inl (Errorf ''results are a different length than tasks''), s')
            else Concat ext s' results))"

text \<open>
  The first loop of \<^verbatim>\<open>DistributedCompactor.Compact\<close>:
  \<^verbatim>\<open>for len(ids)/childSize > c.maxFanIn { childSize *= c.maxFanIn }\<close>. \<open>n\<close> is \<^verbatim>\<open>len(ids)\<close>.
  A zero divisor panics. The loop may run forever: \<open>None\<close>.
\<close>

partial_function (option) childSize_loop :: "int \<Rightarrow> int \<Rightarrow> int \<Rightarrow> (error + int) option" where
  "childSize_loop n maxFanIn' childSize =
    (if childSize = 0 then Some (Inl (Panic ''integer divide by zero''))
     else if go_quot n childSize > maxFanIn'
       then childSize_loop n maxFanIn' (wrap_int (childSize * maxFanIn'))
       else Some (Inr childSize))"

text \<open>
  \<^verbatim>\<open>DistributedCompactor.Compact\<close> and its second loop (\<open>compact_children\<close>, with the loop
  variables \<^verbatim>\<open>start\<close> and \<^verbatim>\<open>results\<close>). The recursion need not end, so both take fuel:
  the first argument bounds the depth of calls and loop iterations, and \<open>None\<close> is a run
  that needs more (or one whose first loop never exits). A slice expression
  \<^verbatim>\<open>ids[start:end]\<close> panics unless \<^verbatim>\<open>0 <= start <= end\<close> (\<^verbatim>\<open>end\<close> is at most \<^verbatim>\<open>len(ids)\<close>
  here).
\<close>

fun DistributedCompactor_Compact ::
    "nat \<Rightarrow> DistributedCompactor \<Rightarrow> externals \<Rightarrow> ID list \<Rightarrow> Storage
      \<Rightarrow> ((error + ID) \<times> Storage) option"
and compact_children ::
    "nat \<Rightarrow> DistributedCompactor \<Rightarrow> externals \<Rightarrow> ID list \<Rightarrow> int \<Rightarrow> int \<Rightarrow> ID list \<Rightarrow> Storage
      \<Rightarrow> ((error + ID list) \<times> Storage) option" where
  "DistributedCompactor_Compact 0 c ext ids s = None"
| "DistributedCompactor_Compact (Suc fuel) c ext ids s =
    (if int (length ids) \<le> maxFanIn c then Some (shardedCompact c ext ids s)
     else
       (case childSize_loop (int (length ids)) (maxFanIn c) (maxFanIn c) of
          None \<Rightarrow> None
        | Some (Inl err) \<Rightarrow> Some (Inl err, s)
        | Some (Inr childSize) \<Rightarrow>
           (case compact_children fuel c ext ids childSize 0 [] s of
              None \<Rightarrow> None
            | Some (Inl err, s') \<Rightarrow> Some (Inl err, s')
            | Some (Inr results, s') \<Rightarrow> DistributedCompactor_Compact fuel c ext results s')))"
| "compact_children 0 c ext ids childSize start results s = None"
| "compact_children (Suc fuel) c ext ids childSize start results s =
    (if start < int (length ids) then
       (let end0 = wrap_int (start + childSize);
            end1 = (if end0 > int (length ids) then int (length ids) else end0)
        in if \<not> (0 \<le> start \<and> start \<le> end1)
           then Some (Inl (Panic ''slice bounds out of range''), s)
           else
             (case DistributedCompactor_Compact fuel c ext
                     (take (nat (end1 - start)) (drop (nat start) ids)) s of
                None \<Rightarrow> None
              | Some (Inl err, s') \<Rightarrow> Some (Inl err, s')
              | Some (Inr fid, s') \<Rightarrow>
                  compact_children fuel c ext ids childSize (wrap_int (start + childSize))
                    (results @ [fid]) s'))
     else Some (Inr results, s))"

subsection \<open>Example values\<close>

text \<open>
  Concrete inputs on which the definitions are run. The store holds the primitives 0, 1
  and 6 (sizes 100, 4 and 50), the composite 2 over 0 and 1, the empty metadata 3, the
  composite 4 that points to nothing and the composite 5 over 4 twice; the level factor
  is 10.
\<close>

definition example_store :: Storage where
  "example_store =
    \<lparr>store = [Metadata_Primitive \<lparr>SizeBytes = 100\<rparr>, Metadata_Primitive \<lparr>SizeBytes = 4\<rparr>,
              Metadata_Composite \<lparr>PointsTo = Inr [0, 1]\<rparr>, Metadata_Empty,
              Metadata_Composite \<lparr>PointsTo = Inr []\<rparr>, Metadata_Composite \<lparr>PointsTo = Inr [4, 4]\<rparr>,
              Metadata_Primitive \<lparr>SizeBytes = 50\<rparr>],
     levelFactor = 10\<rparr>"

text \<open>
  Collaborators for the examples: a merge writes a primitive whose size is the sum of
  its inputs' sizes, composing never fails, every input is sharded into two path ranges,
  and \<open>Concat\<close> writes a composite over the results.
\<close>

definition example_externals :: externals where
  "example_externals =
    \<lparr>merge_output = (\<lambda>s ids. Inr \<lparr>SizeBytes = sum_list (map (\<lambda>fid.
         case getPrimitive s fid of Inl err \<Rightarrow> 0 | Inr prim \<Rightarrow> SizeBytes prim) ids)\<rparr>),
     compose_failure = (\<lambda>s ids. None),
     shard_ranges = (\<lambda>s ids. Inr [\<lparr>Lower = ''a'', Upper = ''m''\<rparr>, \<lparr>Lower = ''m'', Upper = ''z''\<rparr>]),
     Concat = (\<lambda>s ids. (Inr (length (store s)),
                 s\<lparr>store := store s @ [Metadata_Composite \<lparr>PointsTo = Inr ids\<rparr>]\<rparr>))\<rparr>"

text \<open>
  Workers for the examples: \<open>example_worker\<close> writes one new primitive per task and
  returns their references in task order; \<open>example_lossy_worker\<close> does the same and drops
  the last result.
\<close>

definition example_worker :: "Storage \<Rightarrow> CompactionTask list \<Rightarrow> (error + ID list) \<times> Storage" where
  "example_worker s tasks =
    (Inr (map (\<lambda>k. length (store s) + k) [0..<length tasks]),
     s\<lparr>store := store s @ map (\<lambda>task. Metadata_Primitive \<lparr>SizeBytes = 1\<rparr>) tasks\<rparr>)"

definition example_lossy_worker :: "Storage \<Rightarrow> CompactionTask list \<Rightarrow> (error + ID list) \<times> Storage" where
  "example_lossy_worker s tasks =
    (case example_worker s tasks of
       (Inl err, s') \<Rightarrow> (Inl err, s')
     | (Inr results, s') \<Rightarrow> (Inr (butlast results), s'))"

definition example_lossy_compactor :: DistributedCompactor where
  "example_lossy_compactor = \<lparr>maxFanIn = 2, workerFunc = example_lossy_worker\<rparr>"

definition example_compactor :: "int \<Rightarrow> DistributedCompactor" where
  "example_compactor fanIn = \<lparr>maxFanIn = fanIn, workerFunc = example_worker\<rparr>"

text \<open>
  A store on which the product overflows: the primitives 0 and 1 have sizes 1 and
  \<open>2 ^ 62\<close>, the composite 2 points to both, and the level factor is 4, so that
  \<^verbatim>\<open>rightSize*factor\<close> is \<open>2 ^ 64\<close>, which wraps around to 0.
\<close>

definition overflow_store :: Storage where
  "overflow_store =
    \<lparr>store = [Metadata_Primitive \<lparr>SizeBytes = 1\<rparr>,
              Metadata_Primitive \<lparr>SizeBytes = 4611686018427387904\<rparr>,
              Metadata_Composite \<lparr>PointsTo = Inr [0, 1]\<rparr>],
     levelFactor = 4\<rparr>"

section \<open>Properties\<close>

subsection \<open>The break point\<close>

declare indexOfCompacted_loop.simps [simp del]

lemma loop_test_iff:
  "(SizeBytes (inputs ! i) <s SizeBytes (inputs ! (i + 1)) * factor)
     = (\<not> compactedRelationship factor inputs i)"
  by (auto simp: compactedRelationship_def word_sless_alt word_sle_eq)

lemma loop_test_iff_Suc:
  "(SizeBytes (inputs ! i) <s SizeBytes (inputs ! Suc i) * factor)
     = (\<not> compactedRelationship factor inputs i)"
  using loop_test_iff [of inputs i factor] by simp

text \<open>
  Where the product does not overflow, the compacted relationship that the code tests is
  the spec's size-ratio invariant.
\<close>

lemma compactedRelationship_no_overflow:
  assumes "productFitsInt64 factor layers j"
  shows "compactedRelationship factor layers j = sizeRatioInvariant factor layers j"
proof -
  have "sint (SizeBytes (layers ! (j + 1)) * factor)
      = signed_take_bit 63 (sint (SizeBytes (layers ! (j + 1))) * sint factor)"
    by (simp add: sint_word_ariths)
  also have "\<dots> = sint (SizeBytes (layers ! (j + 1))) * sint factor"
    using assms unfolding productFitsInt64_def
    by (intro signed_take_bit_int_eq_self) simp_all
  finally show ?thesis
    by (simp add: compactedRelationship_def sizeRatioInvariant_def word_sle_eq)
qed

lemma overflow_layers:
  "compactedRelationship 4 [\<lparr>SizeBytes = 1\<rparr>, \<lparr>SizeBytes = 4611686018427387904\<rparr>] 0"
  "\<not> sizeRatioInvariant 4 [\<lparr>SizeBytes = 1\<rparr>, \<lparr>SizeBytes = 4611686018427387904\<rparr>] 0"
  "\<not> productFitsInt64 4 [\<lparr>SizeBytes = 1\<rparr>, \<lparr>SizeBytes = 4611686018427387904\<rparr>] 0"
  "indexOfCompacted 4 [\<lparr>SizeBytes = 1\<rparr>, \<lparr>SizeBytes = 4611686018427387904\<rparr>] = 2"
  by (simp_all add: compactedRelationship_def sizeRatioInvariant_def productFitsInt64_def
      indexOfCompacted_def indexOfCompacted_loop.simps word_sle_eq word_sless_alt)

lemma indexOfCompacted_loop_bounds:
  "i \<le> length inputs \<Longrightarrow>
     i \<le> indexOfCompacted_loop factor inputs i \<and> indexOfCompacted_loop factor inputs i \<le> length inputs"
proof (induction factor inputs i rule: indexOfCompacted_loop.induct)
  case (1 factor inputs i)
  show ?case
  proof (cases "int i < int (length inputs) - 1")
    case False
    then show ?thesis using "1.prems"
      by (subst (1 2) indexOfCompacted_loop.simps) (simp add: Let_def)
  next
    case True
    show ?thesis
    proof (cases "SizeBytes (inputs ! i) <s SizeBytes (inputs ! (i + 1)) * factor")
      case True
      then show ?thesis using "1.prems"
        by (subst (1 2) indexOfCompacted_loop.simps) (simp add: Let_def)
    next
      case False
      have "i + 1 \<le> length inputs" using \<open>int i < int (length inputs) - 1\<close> by simp
      with "1.IH" [OF refl \<open>int i < int (length inputs) - 1\<close> refl refl False]
      have "i + 1 \<le> indexOfCompacted_loop factor inputs (i + 1)
          \<and> indexOfCompacted_loop factor inputs (i + 1) \<le> length inputs" by simp
      moreover have "indexOfCompacted_loop factor inputs i = indexOfCompacted_loop factor inputs (i + 1)"
        using False \<open>int i < int (length inputs) - 1\<close>
        by (subst indexOfCompacted_loop.simps) (simp add: Let_def)
      ultimately show ?thesis by simp
    qed
  qed
qed

lemma indexOfCompacted_loop_prefix:
  "i \<le> k \<Longrightarrow> k < indexOfCompacted_loop factor inputs i \<Longrightarrow> k + 1 < length inputs \<Longrightarrow>
     compactedRelationship factor inputs k"
proof (induction factor inputs i rule: indexOfCompacted_loop.induct)
  case (1 factor inputs i)
  have lt: "int i < int (length inputs) - 1" using "1.prems" by simp
  show ?case
  proof (cases "SizeBytes (inputs ! i) <s SizeBytes (inputs ! (i + 1)) * factor")
    case True
    then have "indexOfCompacted_loop factor inputs i = i" using lt
      by (subst indexOfCompacted_loop.simps) (simp add: Let_def)
    then show ?thesis using "1.prems" by simp
  next
    case False
    have eq: "indexOfCompacted_loop factor inputs i = indexOfCompacted_loop factor inputs (i + 1)"
      using False lt by (subst indexOfCompacted_loop.simps) (simp add: Let_def)
    show ?thesis
    proof (cases "k = i")
      case True
      then show ?thesis using False by (simp add: loop_test_iff_Suc)
    next
      case False
      then have "i + 1 \<le> k" using "1.prems" by simp
      then show ?thesis
        using "1.IH" [OF refl lt refl refl \<open>\<not> SizeBytes (inputs ! i) <s SizeBytes (inputs ! (i + 1)) * factor\<close>]
          "1.prems" eq by simp
    qed
  qed
qed

lemma indexOfCompacted_loop_break:
  "indexOfCompacted_loop factor inputs i < length inputs \<Longrightarrow>
     indexOfCompacted_loop factor inputs i + 1 < length inputs
     \<and> \<not> compactedRelationship factor inputs (indexOfCompacted_loop factor inputs i)"
proof (induction factor inputs i rule: indexOfCompacted_loop.induct)
  case (1 factor inputs i)
  have lt: "int i < int (length inputs) - 1"
  proof (rule ccontr)
    assume "\<not> ?thesis"
    then have "indexOfCompacted_loop factor inputs i = length inputs"
      by (subst indexOfCompacted_loop.simps) (simp add: Let_def)
    then show False using "1.prems" by simp
  qed
  show ?case
  proof (cases "SizeBytes (inputs ! i) <s SizeBytes (inputs ! (i + 1)) * factor")
    case True
    then have "indexOfCompacted_loop factor inputs i = i" using lt
      by (subst indexOfCompacted_loop.simps) (simp add: Let_def)
    then show ?thesis using True lt by (simp add: loop_test_iff_Suc)
  next
    case False
    have eq: "indexOfCompacted_loop factor inputs i = indexOfCompacted_loop factor inputs (i + 1)"
      using False lt by (subst indexOfCompacted_loop.simps) (simp add: Let_def)
    show ?thesis
      using "1.IH" [OF refl lt refl refl False] "1.prems" eq by simp
  qed
qed

lemma indexOfCompacted_le: "indexOfCompacted factor layers \<le> length layers"
  using indexOfCompacted_loop_bounds [of 0 layers factor] by (simp add: indexOfCompacted_def)

lemma indexOfCompacted_prefix:
  "k < indexOfCompacted factor layers \<Longrightarrow> k + 1 < length layers \<Longrightarrow>
     compactedRelationship factor layers k"
  using indexOfCompacted_loop_prefix [of 0 k factor layers] by (simp add: indexOfCompacted_def)

lemma indexOfCompacted_break:
  "indexOfCompacted factor layers \<noteq> length layers \<Longrightarrow>
     indexOfCompacted factor layers + 1 < length layers
     \<and> \<not> compactedRelationship factor layers (indexOfCompacted factor layers)"
  using indexOfCompacted_loop_break [of factor layers 0] indexOfCompacted_le [of factor layers]
  by (simp add: indexOfCompacted_def)

lemma isCompacted_iff:
  "isCompacted factor layers
     = (\<forall>j. j + 1 < length layers \<longrightarrow> compactedRelationship factor layers j)"
proof
  assume "isCompacted factor layers"
  then show "\<forall>j. j + 1 < length layers \<longrightarrow> compactedRelationship factor layers j"
    using indexOfCompacted_prefix [of _ factor layers] by (simp add: isCompacted_def)
next
  assume a: "\<forall>j. j + 1 < length layers \<longrightarrow> compactedRelationship factor layers j"
  show "isCompacted factor layers"
    unfolding isCompacted_def
  proof (rule ccontr)
    assume "indexOfCompacted factor layers \<noteq> length layers"
    from indexOfCompacted_break [OF this] a show False by blast
  qed
qed

lemma indexOfCompacted_largest:
  assumes "i \<le> length layers"
    and "\<forall>k. k + 1 \<le> i \<and> k + 1 < length layers \<longrightarrow> compactedRelationship factor layers k"
  shows "i \<le> indexOfCompacted factor layers"
proof (cases "indexOfCompacted factor layers = length layers")
  case True
  then show ?thesis using assms(1) by simp
next
  case False
  from indexOfCompacted_break [OF False] assms(2) show ?thesis
    by (metis Suc_eq_plus1 not_less_eq_eq)
qed

lemma indexOfCompacted_first_violation:
  assumes "j + 1 < length layers"
    and "\<not> compactedRelationship factor layers j"
    and "\<forall>k<j. compactedRelationship factor layers k"
  shows "indexOfCompacted factor layers = j"
proof -
  have "\<not> j < indexOfCompacted factor layers"
    using indexOfCompacted_prefix [of j factor layers] assms(1,2) by blast
  moreover have "\<not> indexOfCompacted factor layers < j"
  proof
    assume lt: "indexOfCompacted factor layers < j"
    then have "indexOfCompacted factor layers \<noteq> length layers" using assms(1) by simp
    from indexOfCompacted_break [OF this] assms(3) lt show False by blast
  qed
  ultimately show ?thesis by simp
qed

lemma indexOfCompacted_short:
  "length layers \<le> 1 \<Longrightarrow> indexOfCompacted factor layers = length layers"
  unfolding indexOfCompacted_def
  by (subst indexOfCompacted_loop.simps) (simp add: Let_def)

lemma isCompacted_sizeRatio:
  assumes "\<forall>j. j + 1 < length layers \<longrightarrow> productFitsInt64 factor layers j"
  shows "isCompacted factor layers
    = (\<forall>j. j + 1 < length layers \<longrightarrow> sizeRatioInvariant factor layers j)"
  unfolding isCompacted_iff using assms compactedRelationship_no_overflow by blast

text \<open>
  C4, as stated, reads \<^verbatim>\<open>left.SizeBytes >= right.SizeBytes * f\<close> over the integers. The code
  multiplies in \<^verbatim>\<open>int64\<close>: with factor 4 and the sizes 1 and \<open>2 ^ 62\<close> the product wraps
  around to 0, the pair (0, 1) violates the integer inequality and is the first to do
  so, and \<open>indexOfCompacted\<close> returns the length 2, not 0.
\<close>

theorem indexOfCompacted_overflow_counterexample:
  "0 + 1 < length [\<lparr>SizeBytes = 1\<rparr>, \<lparr>SizeBytes = 4611686018427387904 :: int64\<rparr>]
   \<and> \<not> sizeRatioInvariant 4 [\<lparr>SizeBytes = 1\<rparr>, \<lparr>SizeBytes = 4611686018427387904\<rparr>] 0
   \<and> indexOfCompacted 4 [\<lparr>SizeBytes = 1\<rparr>, \<lparr>SizeBytes = 4611686018427387904\<rparr>] = 2
   \<and> indexOfCompacted 4 [\<lparr>SizeBytes = 1\<rparr>, \<lparr>SizeBytes = 4611686018427387904\<rparr>] \<noteq> 0
   \<and> isCompacted 4 [\<lparr>SizeBytes = 1\<rparr>, \<lparr>SizeBytes = 4611686018427387904\<rparr>]"
  using overflow_layers by (simp add: isCompacted_def)

text \<open>
  C4, amended. For every factor and layer list, \<open>indexOfCompacted\<close> returns the largest
  \<open>i\<close> (at most the length) such that every consecutive pair within the layers \<open>0..i\<close>,
  that is every pair \<open>(k, k + 1)\<close> with \<open>k + 1 \<le> i\<close>, satisfies the compacted relationship
  \<^verbatim>\<open>leftSize >= rightSize * factor\<close> with Go's wrapping \<^verbatim>\<open>int64\<close> product; if the first pair
  violating it is \<open>(j, j + 1)\<close> it returns \<open>j\<close>; for a list of length 0 or 1 it returns the
  length; with factor 10 and sizes 100, 50, 4 it returns 0; and it returns the length
  exactly when \<open>isCompacted\<close> is true. Whenever no product \<^verbatim>\<open>rightSize * factor\<close> of the
  list overflows \<^verbatim>\<open>int64\<close>, all of this holds for the inequality over the integers, the
  spec's size-ratio invariant.
\<close>

theorem indexOfCompacted_spec:
  "(indexOfCompacted factor layers \<le> length layers
     \<and> (\<forall>k. k + 1 \<le> indexOfCompacted factor layers \<and> k + 1 < length layers
            \<longrightarrow> compactedRelationship factor layers k)
     \<and> (\<forall>i \<le> length layers.
           (\<forall>k. k + 1 \<le> i \<and> k + 1 < length layers \<longrightarrow> compactedRelationship factor layers k)
             \<longrightarrow> i \<le> indexOfCompacted factor layers))
   \<and> (\<forall>j. j + 1 < length layers \<and> \<not> compactedRelationship factor layers j
            \<and> (\<forall>k<j. compactedRelationship factor layers k)
          \<longrightarrow> indexOfCompacted factor layers = j)
   \<and> (length layers \<le> 1 \<longrightarrow> indexOfCompacted factor layers = length layers)
   \<and> indexOfCompacted 10 [\<lparr>SizeBytes = 100\<rparr>, \<lparr>SizeBytes = 50\<rparr>, \<lparr>SizeBytes = 4\<rparr>] = 0
   \<and> ((indexOfCompacted factor layers = length layers) = isCompacted factor layers)
   \<and> ((\<forall>j. j + 1 < length layers \<longrightarrow> productFitsInt64 factor layers j)
      \<longrightarrow> (\<forall>k. k + 1 \<le> indexOfCompacted factor layers \<and> k + 1 < length layers
              \<longrightarrow> sizeRatioInvariant factor layers k)
          \<and> (\<forall>i \<le> length layers.
                (\<forall>k. k + 1 \<le> i \<and> k + 1 < length layers \<longrightarrow> sizeRatioInvariant factor layers k)
                  \<longrightarrow> i \<le> indexOfCompacted factor layers)
          \<and> (\<forall>j. j + 1 < length layers \<and> \<not> sizeRatioInvariant factor layers j
                   \<and> (\<forall>k<j. sizeRatioInvariant factor layers k)
                 \<longrightarrow> indexOfCompacted factor layers = j)
          \<and> (isCompacted factor layers
               = (\<forall>j. j + 1 < length layers \<longrightarrow> sizeRatioInvariant factor layers j)))"
proof -
  have a: "indexOfCompacted factor layers \<le> length layers"
    by (rule indexOfCompacted_le)
  have b: "\<forall>k. k + 1 \<le> indexOfCompacted factor layers \<and> k + 1 < length layers
            \<longrightarrow> compactedRelationship factor layers k"
    using indexOfCompacted_prefix [of _ factor layers] by simp
  have c: "\<forall>i \<le> length layers.
           (\<forall>k. k + 1 \<le> i \<and> k + 1 < length layers \<longrightarrow> compactedRelationship factor layers k)
             \<longrightarrow> i \<le> indexOfCompacted factor layers"
    using indexOfCompacted_largest [of _ layers factor] by blast
  have d: "\<forall>j. j + 1 < length layers \<and> \<not> compactedRelationship factor layers j
            \<and> (\<forall>k<j. compactedRelationship factor layers k)
          \<longrightarrow> indexOfCompacted factor layers = j"
    using indexOfCompacted_first_violation [of _ layers factor] by blast
  have e: "length layers \<le> 1 \<longrightarrow> indexOfCompacted factor layers = length layers"
    using indexOfCompacted_short by blast
  have f: "indexOfCompacted 10 [\<lparr>SizeBytes = 100\<rparr>, \<lparr>SizeBytes = 50\<rparr>, \<lparr>SizeBytes = 4\<rparr>] = 0"
    by (simp add: indexOfCompacted_def indexOfCompacted_loop.simps)
  have g: "(indexOfCompacted factor layers = length layers) = isCompacted factor layers"
    by (simp add: isCompacted_def)
  have h: "(\<forall>k. k + 1 \<le> indexOfCompacted factor layers \<and> k + 1 < length layers
              \<longrightarrow> sizeRatioInvariant factor layers k)
          \<and> (\<forall>i \<le> length layers.
                (\<forall>k. k + 1 \<le> i \<and> k + 1 < length layers \<longrightarrow> sizeRatioInvariant factor layers k)
                  \<longrightarrow> i \<le> indexOfCompacted factor layers)
          \<and> (\<forall>j. j + 1 < length layers \<and> \<not> sizeRatioInvariant factor layers j
                   \<and> (\<forall>k<j. sizeRatioInvariant factor layers k)
                 \<longrightarrow> indexOfCompacted factor layers = j)
          \<and> (isCompacted factor layers
               = (\<forall>j. j + 1 < length layers \<longrightarrow> sizeRatioInvariant factor layers j))"
    if fits: "\<forall>j. j + 1 < length layers \<longrightarrow> productFitsInt64 factor layers j"
  proof -
    have eq: "compactedRelationship factor layers k = sizeRatioInvariant factor layers k"
      if "k + 1 < length layers" for k
      using fits that by (intro compactedRelationship_no_overflow) blast
    have 1: "\<forall>k. k + 1 \<le> indexOfCompacted factor layers \<and> k + 1 < length layers
              \<longrightarrow> sizeRatioInvariant factor layers k"
      using b eq by blast
    have 2: "\<forall>i \<le> length layers.
                (\<forall>k. k + 1 \<le> i \<and> k + 1 < length layers \<longrightarrow> sizeRatioInvariant factor layers k)
                  \<longrightarrow> i \<le> indexOfCompacted factor layers"
    proof (intro allI impI)
      fix i
      assume i: "i \<le> length layers"
        and r: "\<forall>k. k + 1 \<le> i \<and> k + 1 < length layers \<longrightarrow> sizeRatioInvariant factor layers k"
      have "\<forall>k. k + 1 \<le> i \<and> k + 1 < length layers \<longrightarrow> compactedRelationship factor layers k"
        using r eq by blast
      with i show "i \<le> indexOfCompacted factor layers"
        by (rule indexOfCompacted_largest)
    qed
    have 3: "\<forall>j. j + 1 < length layers \<and> \<not> sizeRatioInvariant factor layers j
                   \<and> (\<forall>k<j. sizeRatioInvariant factor layers k)
                 \<longrightarrow> indexOfCompacted factor layers = j"
    proof (intro allI impI)
      fix j
      assume j: "j + 1 < length layers \<and> \<not> sizeRatioInvariant factor layers j
                   \<and> (\<forall>k<j. sizeRatioInvariant factor layers k)"
      then have "\<not> compactedRelationship factor layers j" using eq by blast
      moreover have "\<forall>k<j. compactedRelationship factor layers k"
      proof (intro allI impI)
        fix k assume "k < j"
        then have "k + 1 < length layers" using j by simp
        with eq j \<open>k < j\<close> show "compactedRelationship factor layers k" by blast
      qed
      ultimately show "indexOfCompacted factor layers = j"
        using j by (intro indexOfCompacted_first_violation) simp_all
    qed
    have 4: "isCompacted factor layers
               = (\<forall>j. j + 1 < length layers \<longrightarrow> sizeRatioInvariant factor layers j)"
      unfolding isCompacted_iff using eq by blast
    from 1 2 3 4 show ?thesis by blast
  qed
  from a b c d e f g h show ?thesis by blast
qed

text \<open>
  The theorem at factor 10 and sizes 100, 5, 4, where no product overflows and the first
  violation is at the pair (1, 2), and at a single layer.
\<close>

theorem indexOfCompacted_spec_witness:
  "length [\<lparr>SizeBytes = 100\<rparr>, \<lparr>SizeBytes = 5\<rparr>, \<lparr>SizeBytes = 4 :: int64\<rparr>] = 3
   \<and> compactedRelationship 10 [\<lparr>SizeBytes = 100\<rparr>, \<lparr>SizeBytes = 5\<rparr>, \<lparr>SizeBytes = 4\<rparr>] 0
   \<and> \<not> compactedRelationship 10 [\<lparr>SizeBytes = 100\<rparr>, \<lparr>SizeBytes = 5\<rparr>, \<lparr>SizeBytes = 4\<rparr>] 1
   \<and> productFitsInt64 10 [\<lparr>SizeBytes = 100\<rparr>, \<lparr>SizeBytes = 5\<rparr>, \<lparr>SizeBytes = 4\<rparr>] 0
   \<and> productFitsInt64 10 [\<lparr>SizeBytes = 100\<rparr>, \<lparr>SizeBytes = 5\<rparr>, \<lparr>SizeBytes = 4\<rparr>] 1
   \<and> sizeRatioInvariant 10 [\<lparr>SizeBytes = 100\<rparr>, \<lparr>SizeBytes = 5\<rparr>, \<lparr>SizeBytes = 4\<rparr>] 0
   \<and> \<not> sizeRatioInvariant 10 [\<lparr>SizeBytes = 100\<rparr>, \<lparr>SizeBytes = 5\<rparr>, \<lparr>SizeBytes = 4\<rparr>] 1
   \<and> indexOfCompacted 10 [\<lparr>SizeBytes = 100\<rparr>, \<lparr>SizeBytes = 5\<rparr>, \<lparr>SizeBytes = 4\<rparr>] = 1
   \<and> \<not> isCompacted 10 [\<lparr>SizeBytes = 100\<rparr>, \<lparr>SizeBytes = 5\<rparr>, \<lparr>SizeBytes = 4\<rparr>]
   \<and> indexOfCompacted 10 [\<lparr>SizeBytes = 7\<rparr>] = 1"
proof -
  let ?L = "[\<lparr>SizeBytes = 100\<rparr>, \<lparr>SizeBytes = 5\<rparr>, \<lparr>SizeBytes = 4 :: int64\<rparr>]"
  note spec = indexOfCompacted_spec [of 10 ?L]
  note first_violation = spec [THEN conjunct2, THEN conjunct1, rule_format, of 1]
  note iff = spec [THEN conjunct2, THEN conjunct2, THEN conjunct2, THEN conjunct2, THEN conjunct1]
  note integers = spec [THEN conjunct2, THEN conjunct2, THEN conjunct2, THEN conjunct2,
      THEN conjunct2, THEN mp]
  note short = indexOfCompacted_spec [of 10 "[\<lparr>SizeBytes = 7\<rparr>]",
      THEN conjunct2, THEN conjunct2, THEN conjunct1, rule_format]
  have len: "length ?L = 3" by simp
  have r0: "compactedRelationship 10 ?L 0"
    by (simp add: compactedRelationship_def)
  have r1: "\<not> compactedRelationship 10 ?L 1"
    by (simp add: compactedRelationship_def)
  have p0: "productFitsInt64 10 ?L 0" and p1: "productFitsInt64 10 ?L 1"
    by (simp_all add: productFitsInt64_def)
  have q0: "sizeRatioInvariant 10 ?L 0" and q1: "\<not> sizeRatioInvariant 10 ?L 1"
    by (simp_all add: sizeRatioInvariant_def)
  have below: "\<forall>k<1. compactedRelationship 10 ?L k" using r0 by simp
  have "1 + 1 < length ?L" by simp
  with r1 below have i: "indexOfCompacted 10 ?L = 1"
    by (intro first_violation conjI)
  have fits: "\<forall>j. j + 1 < length ?L \<longrightarrow> productFitsInt64 10 ?L j"
  proof (intro allI impI)
    fix j assume "j + 1 < length ?L"
    then have "j = 0 \<or> j = 1" by auto
    then show "productFitsInt64 10 ?L j" using p0 p1 by auto
  qed
  have "isCompacted 10 ?L = (\<forall>j. j + 1 < length ?L \<longrightarrow> sizeRatioInvariant 10 ?L j)"
    using integers [OF fits] by blast
  moreover have "\<not> (\<forall>j. j + 1 < length ?L \<longrightarrow> sizeRatioInvariant 10 ?L j)"
    using q1 by (auto intro: exI [of _ 1])
  ultimately have n: "\<not> isCompacted 10 ?L" by simp
  have s: "indexOfCompacted 10 [\<lparr>SizeBytes = 7\<rparr>] = 1"
    using short by simp
  from len r0 r1 p0 p1 q0 q1 i n s show ?thesis by blast
qed

subsection \<open>Flatten, primitives and the store\<close>

lemma getPrimitive_Inr_iff:
  "(getPrimitive s fid = Inr p) = (store_Get s fid = Inr (Metadata_Primitive p))"
  by (auto simp: getPrimitive_def split: sum.splits Metadata.splits)

lemma store_Get_Inr_less: "store_Get s fid = Inr md \<Longrightarrow> fid < length (store s)"
  by (auto simp: store_Get_def split: if_splits)

lemma store_Get_append:
  "fid < length (store s) \<Longrightarrow> store s' = store s @ new \<Longrightarrow> store_Get s' fid = store_Get s fid"
  by (simp add: store_Get_def nth_append)

lemma store_Get_new:
  "store s' = store s @ [md] \<Longrightarrow> store_Get s' (length (store s)) = Inr md"
  by (simp add: store_Get_def)

lemma getPrimitive_append:
  "getPrimitive s fid = Inr p \<Longrightarrow> store s' = store s @ new \<Longrightarrow> getPrimitive s' fid = Inr p"
  using store_Get_append [of fid s s' new] store_Get_Inr_less [of s fid]
  by (simp add: getPrimitive_Inr_iff)

lemma Flatten_Nil: "Flatten s [] = Some (Inr [])"
  by (subst Flatten.simps) simp

lemma Flatten_primitives:
  "\<forall>fid \<in> set ids. \<exists>p. getPrimitive s fid = Inr p \<Longrightarrow> Flatten s ids = Some (Inr ids)"
proof (induction ids)
  case Nil
  show ?case by (rule Flatten_Nil)
next
  case (Cons fid ids)
  then obtain p where p: "store_Get s fid = Inr (Metadata_Primitive p)"
    by (auto simp: getPrimitive_Inr_iff)
  have "Flatten s ids = Some (Inr ids)" using Cons by simp
  then show ?case using p by (subst Flatten.simps) simp
qed

lemma bind_sum_Inr:
  assumes "Option.bind m (\<lambda>r. case r of Inl err \<Rightarrow> Some (Inl err) | Inr v \<Rightarrow> f v) = Some (Inr out)"
  obtains v where "m = Some (Inr v)" and "f v = Some (Inr out)"
proof (cases m)
  case None
  then show ?thesis using assms by simp
next
  case (Some r)
  then show ?thesis using assms that by (cases r) simp_all
qed

lemma Flatten_yields_primitives:
  "Flatten s ids = Some r \<Longrightarrow> r = Inr flat \<Longrightarrow> \<forall>fid \<in> set flat. \<exists>p. getPrimitive s fid = Inr p"
proof (induction arbitrary: flat rule: Flatten.raw_induct [rotated 1, consumes 1])
  case (1 flatten s ids r)
  show ?case
  proof (cases ids)
    case Nil
    then show ?thesis using "1.hyps" "1.prems" by simp
  next
    case (Cons fid rest)
    show ?thesis
    proof (cases "store_Get s fid")
      case (Inl err)
      then show ?thesis using "1.hyps" "1.prems" Cons by simp
    next
      case (Inr md)
      show ?thesis
      proof (cases md)
        case (Metadata_Primitive p)
        with "1.hyps" "1.prems" Cons Inr
        have "Option.bind (flatten s rest)
                (\<lambda>r. case r of Inl err \<Rightarrow> Some (Inl err)
                   | Inr flattened \<Rightarrow> Some (Inr (fid # flattened))) = Some (Inr flat)"
          by simp
        then obtain fl where
          fl: "flatten s rest = Some (Inr fl)" and flat: "flat = fid # fl"
          by (rule bind_sum_Inr) auto
        from "1.IH" [OF fl refl] flat Inr Metadata_Primitive show ?thesis
          by (auto simp: getPrimitive_Inr_iff)
      next
        case (Metadata_Composite x)
        with "1.hyps" "1.prems" Cons Inr obtain ids2 where
          "PointsTo x = Inr ids2" and
          b: "Option.bind (flatten s ids2)
                (\<lambda>r2. case r2 of Inl err \<Rightarrow> Some (Inl err)
                   | Inr flattened2 \<Rightarrow>
                       Option.bind (flatten s rest)
                         (\<lambda>r. case r of Inl err \<Rightarrow> Some (Inl err)
                            | Inr flattened \<Rightarrow> Some (Inr (flattened2 @ flattened))))
              = Some (Inr flat)"
          by (cases "PointsTo x") simp_all
        from b obtain fl2 where fl2: "flatten s ids2 = Some (Inr fl2)"
          and b2: "Option.bind (flatten s rest)
                     (\<lambda>r. case r of Inl err \<Rightarrow> Some (Inl err)
                        | Inr flattened \<Rightarrow> Some (Inr (fl2 @ flattened))) = Some (Inr flat)"
          by (rule bind_sum_Inr)
        from b2 obtain fl where fl: "flatten s rest = Some (Inr fl)" and flat: "flat = fl2 @ fl"
          by (rule bind_sum_Inr) auto
        from "1.IH" [OF fl2 refl] "1.IH" [OF fl refl] flat show ?thesis
          by auto
      next
        case Metadata_Empty
        then show ?thesis using "1.hyps" "1.prems" Cons Inr by simp
      qed
    qed
  qed
qed

lemma getPrimitiveBatch_loop_primitives:
  "\<forall>fid \<in> set ids. \<exists>p. getPrimitive s fid = Inr p \<Longrightarrow>
     getPrimitiveBatch_loop s ids layers = Inr (layers @ map (\<lambda>fid. projr (getPrimitive s fid)) ids)"
  by (induction ids arbitrary: layers) auto

lemma getPrimitiveBatch_primitives:
  "\<forall>fid \<in> set ids. \<exists>p. getPrimitive s fid = Inr p \<Longrightarrow>
     getPrimitiveBatch s ids = Inr (map (\<lambda>fid. projr (getPrimitive s fid)) ids)"
  by (simp add: getPrimitiveBatch_def getPrimitiveBatch_loop_primitives)

lemma getPrimitiveBatch_loop_Inr:
  "getPrimitiveBatch_loop s ids layers = Inr out \<Longrightarrow> \<forall>fid \<in> set ids. \<exists>p. getPrimitive s fid = Inr p"
  by (induction ids arbitrary: layers) (auto split: sum.splits)

lemma getPrimitiveBatch_Inr:
  "getPrimitiveBatch s ids = Inr layers \<Longrightarrow>
     (\<forall>fid \<in> set ids. \<exists>p. getPrimitive s fid = Inr p)
     \<and> layers = map (\<lambda>fid. projr (getPrimitive s fid)) ids"
  using getPrimitiveBatch_loop_Inr [of s ids "[]" layers] getPrimitiveBatch_primitives [of ids s]
  by (simp add: getPrimitiveBatch_def)

lemma getPrimitiveBatch_append:
  assumes "getPrimitiveBatch s ids = Inr layers" and "store s' = store s @ new"
  shows "getPrimitiveBatch s' ids = Inr layers"
proof -
  from getPrimitiveBatch_Inr [OF assms(1)]
  have prims: "\<forall>fid \<in> set ids. \<exists>p. getPrimitive s fid = Inr p"
    and layers: "layers = map (\<lambda>fid. projr (getPrimitive s fid)) ids" by simp_all
  have same: "\<forall>fid \<in> set ids. getPrimitive s' fid = getPrimitive s fid"
    using prims getPrimitive_append [OF _ assms(2)] by fastforce
  then have "\<forall>fid \<in> set ids. \<exists>p. getPrimitive s' fid = Inr p" using prims by simp
  from getPrimitiveBatch_primitives [OF this] same layers show ?thesis by simp
qed

lemma Flatten_then_batch:
  assumes "Flatten s ids = Some (Inr flat)"
  shows "getPrimitiveBatch s flat = Inr (map (\<lambda>fid. projr (getPrimitive s fid)) flat)"
  using Flatten_yields_primitives [OF assms refl] by (rule getPrimitiveBatch_primitives)


lemma IsCompacted_Composite:
  assumes "store_Get s fid = Inr (Metadata_Composite x)" and "PointsTo x = Inr ids"
    and "Flatten s ids = Some (Inr flat)"
  shows "IsCompacted s fid
    = Some (Inr (isCompacted (levelFactor s) (map (\<lambda>fid. projr (getPrimitive s fid)) flat)))"
  using assms Flatten_then_batch [OF assms(3)] by (simp add: IsCompacted_def)

text \<open>
  C5, amended. \<open>IsCompacted\<close> returns true whenever the metadata of the reference is a
  primitive; for a composite whose pointer list flattens to the primitive references
  \<open>flat\<close> it reads their layers and returns true exactly when every consecutive pair of
  layers, over the whole list, satisfies the compacted relationship with Go's wrapping
  \<^verbatim>\<open>int64\<close> product, which is the spec's size-ratio invariant over the integers whenever
  no product \<^verbatim>\<open>rightSize * factor\<close> of the list overflows; for empty metadata it returns
  the error "IsCompacted is not defined for empty filesets" and no boolean.
\<close>

theorem IsCompacted_spec:
  "(store_Get s fid = Inr (Metadata_Primitive p) \<longrightarrow> IsCompacted s fid = Some (Inr True))
   \<and> (store_Get s fid = Inr (Metadata_Composite x) \<and> PointsTo x = Inr ids
        \<and> Flatten s ids = Some (Inr flat)
      \<longrightarrow> (\<exists>layers. getPrimitiveBatch s flat = Inr layers \<and> length layers = length flat
            \<and> IsCompacted s fid
                = Some (Inr (\<forall>j. j + 1 < length layers
                              \<longrightarrow> compactedRelationship (levelFactor s) layers j))
            \<and> ((\<forall>j. j + 1 < length layers \<longrightarrow> productFitsInt64 (levelFactor s) layers j)
               \<longrightarrow> IsCompacted s fid
                     = Some (Inr (\<forall>j. j + 1 < length layers
                                   \<longrightarrow> sizeRatioInvariant (levelFactor s) layers j)))))
   \<and> (store_Get s fid = Inr Metadata_Empty
      \<longrightarrow> IsCompacted s fid
            = Some (Inl (Errorf ''IsCompacted is not defined for empty filesets'')))"
proof -
  have prim: "IsCompacted s fid = Some (Inr True)"
    if "store_Get s fid = Inr (Metadata_Primitive p)"
    using that by (simp add: IsCompacted_def)
  have empty: "IsCompacted s fid
      = Some (Inl (Errorf ''IsCompacted is not defined for empty filesets''))"
    if "store_Get s fid = Inr Metadata_Empty"
    using that by (simp add: IsCompacted_def)
  have comp: "\<exists>layers. getPrimitiveBatch s flat = Inr layers \<and> length layers = length flat
            \<and> IsCompacted s fid
                = Some (Inr (\<forall>j. j + 1 < length layers
                              \<longrightarrow> compactedRelationship (levelFactor s) layers j))
            \<and> ((\<forall>j. j + 1 < length layers \<longrightarrow> productFitsInt64 (levelFactor s) layers j)
               \<longrightarrow> IsCompacted s fid
                     = Some (Inr (\<forall>j. j + 1 < length layers
                                   \<longrightarrow> sizeRatioInvariant (levelFactor s) layers j)))"
    if a: "store_Get s fid = Inr (Metadata_Composite x) \<and> PointsTo x = Inr ids
        \<and> Flatten s ids = Some (Inr flat)"
  proof -
    let ?layers = "map (\<lambda>fid. projr (getPrimitive s fid)) flat"
    have 1: "getPrimitiveBatch s flat = Inr ?layers" using a Flatten_then_batch by blast
    have 2: "length ?layers = length flat" by simp
    have r: "IsCompacted s fid = Some (Inr (isCompacted (levelFactor s) ?layers))"
      using a IsCompacted_Composite [of s fid x ids flat] by blast
    have 3: "IsCompacted s fid
      = Some (Inr (\<forall>j. j + 1 < length ?layers
                      \<longrightarrow> compactedRelationship (levelFactor s) ?layers j))"
      using r by (simp only: isCompacted_iff)
    have 4: "IsCompacted s fid
      = Some (Inr (\<forall>j. j + 1 < length ?layers
                      \<longrightarrow> sizeRatioInvariant (levelFactor s) ?layers j))"
      if "\<forall>j. j + 1 < length ?layers \<longrightarrow> productFitsInt64 (levelFactor s) ?layers j"
      using r isCompacted_sizeRatio [OF that] by (simp only:)
    from 1 2 3 4 show ?thesis by blast
  qed
  from prim comp empty show ?thesis by blast
qed

lemma example_store_Get:
  "store_Get example_store 0 = Inr (Metadata_Primitive \<lparr>SizeBytes = 100\<rparr>)"
  "store_Get example_store 1 = Inr (Metadata_Primitive \<lparr>SizeBytes = 4\<rparr>)"
  "store_Get example_store (Suc 0) = Inr (Metadata_Primitive \<lparr>SizeBytes = 4\<rparr>)"
  "store_Get example_store 2 = Inr (Metadata_Composite \<lparr>PointsTo = Inr [0, 1]\<rparr>)"
  "store_Get example_store 3 = Inr Metadata_Empty"
  "store_Get example_store 4 = Inr (Metadata_Composite \<lparr>PointsTo = Inr []\<rparr>)"
  "store_Get example_store 5 = Inr (Metadata_Composite \<lparr>PointsTo = Inr [4, 4]\<rparr>)"
  "store_Get example_store 6 = Inr (Metadata_Primitive \<lparr>SizeBytes = 50\<rparr>)"
  by (simp_all add: store_Get_def example_store_def)

lemma example_Flatten_2: "Flatten example_store [0, 1] = Some (Inr [0, 1])"
  by (simp add: Flatten.simps example_store_Get)

lemma overflow_store_Get:
  "store_Get overflow_store 0 = Inr (Metadata_Primitive \<lparr>SizeBytes = 1\<rparr>)"
  "store_Get overflow_store 1 = Inr (Metadata_Primitive \<lparr>SizeBytes = 4611686018427387904\<rparr>)"
  "store_Get overflow_store (Suc 0)
     = Inr (Metadata_Primitive \<lparr>SizeBytes = 4611686018427387904\<rparr>)"
  "store_Get overflow_store 2 = Inr (Metadata_Composite \<lparr>PointsTo = Inr [0, 1]\<rparr>)"
  by (simp_all add: store_Get_def overflow_store_def)

lemma overflow_Flatten: "Flatten overflow_store [0, 1] = Some (Inr [0, 1])"
  by (simp add: Flatten.simps overflow_store_Get)

lemma overflow_getPrimitiveBatch:
  "getPrimitiveBatch overflow_store [0, 1]
     = Inr [\<lparr>SizeBytes = 1\<rparr>, \<lparr>SizeBytes = 4611686018427387904\<rparr>]"
  by (simp add: getPrimitiveBatch_def getPrimitive_def overflow_store_Get)

text \<open>
  C5, as stated, reads the size-ratio invariant over the integers. On the composite 2 of
  the overflow store, whose layers have sizes 1 and \<open>2 ^ 62\<close> with level factor 4,
  \<open>IsCompacted\<close> returns true although the pair violates the integer inequality: the
  \<^verbatim>\<open>int64\<close> product wraps around to 0.
\<close>

theorem IsCompacted_overflow_counterexample:
  "store_Get overflow_store 2 = Inr (Metadata_Composite \<lparr>PointsTo = Inr [0, 1]\<rparr>)
   \<and> Flatten overflow_store [0, 1] = Some (Inr [0, 1])
   \<and> getPrimitiveBatch overflow_store [0, 1]
       = Inr [\<lparr>SizeBytes = 1\<rparr>, \<lparr>SizeBytes = 4611686018427387904\<rparr>]
   \<and> \<not> sizeRatioInvariant (levelFactor overflow_store)
         [\<lparr>SizeBytes = 1\<rparr>, \<lparr>SizeBytes = 4611686018427387904\<rparr>] 0
   \<and> IsCompacted overflow_store 2 = Some (Inr True)"
proof -
  have lf: "levelFactor overflow_store = 4" by (simp add: overflow_store_def)
  have "IsCompacted overflow_store 2 = Some (Inr True)"
    using overflow_Flatten overflow_getPrimitiveBatch overflow_layers(4)
    by (simp add: IsCompacted_def overflow_store_Get isCompacted_def lf)
  then show ?thesis
    using overflow_store_Get(4) overflow_Flatten overflow_getPrimitiveBatch overflow_layers(2) lf
    by simp
qed

theorem IsCompacted_spec_witness:
  "IsCompacted example_store 0 = Some (Inr True)
   \<and> IsCompacted example_store 2 = Some (Inr True)
   \<and> productFitsInt64 (levelFactor example_store) [\<lparr>SizeBytes = 100\<rparr>, \<lparr>SizeBytes = 4\<rparr>] 0
   \<and> sizeRatioInvariant (levelFactor example_store) [\<lparr>SizeBytes = 100\<rparr>, \<lparr>SizeBytes = 4\<rparr>] 0
   \<and> IsCompacted example_store 3
       = Some (Inl (Errorf ''IsCompacted is not defined for empty filesets''))"
proof -
  note prim = IsCompacted_spec [of example_store 0 "\<lparr>SizeBytes = 100\<rparr>", THEN conjunct1, rule_format]
  note comp = IsCompacted_spec [of example_store 2 _ "\<lparr>PointsTo = Inr [0, 1]\<rparr>" "[0, 1]" "[0, 1]",
      THEN conjunct2, THEN conjunct1, THEN mp]
  note empty = IsCompacted_spec [of example_store 3, THEN conjunct2, THEN conjunct2, rule_format]
  let ?L = "[\<lparr>SizeBytes = 100\<rparr>, \<lparr>SizeBytes = 4 :: int64\<rparr>]"
  have lf: "levelFactor example_store = 10" by (simp add: example_store_def)
  have a: "IsCompacted example_store 0 = Some (Inr True)"
    by (rule prim) (rule example_store_Get)
  have c: "IsCompacted example_store 3
       = Some (Inl (Errorf ''IsCompacted is not defined for empty filesets''))"
    by (rule empty) (rule example_store_Get)
  have "store_Get example_store 2 = Inr (Metadata_Composite \<lparr>PointsTo = Inr [0, 1]\<rparr>)
        \<and> PointsTo \<lparr>PointsTo = Inr [0, 1]\<rparr> = Inr [0, 1]
        \<and> Flatten example_store [0, 1] = Some (Inr [0, 1])"
    using example_Flatten_2 by (simp add: example_store_Get)
  from comp [OF this] obtain layers where
    l: "getPrimitiveBatch example_store [0, 1] = Inr layers"
    and r: "IsCompacted example_store 2
          = Some (Inr (\<forall>j. j + 1 < length layers
                \<longrightarrow> compactedRelationship (levelFactor example_store) layers j))"
    and q: "(\<forall>j. j + 1 < length layers \<longrightarrow> productFitsInt64 (levelFactor example_store) layers j)
          \<longrightarrow> IsCompacted example_store 2
          = Some (Inr (\<forall>j. j + 1 < length layers
                \<longrightarrow> sizeRatioInvariant (levelFactor example_store) layers j))"
    by blast
  from l have layers: "layers = ?L"
    by (simp add: getPrimitiveBatch_def getPrimitive_def example_store_Get)
  have p0: "productFitsInt64 (levelFactor example_store) ?L 0"
    by (simp add: productFitsInt64_def lf)
  have q0: "sizeRatioInvariant (levelFactor example_store) ?L 0"
    by (simp add: sizeRatioInvariant_def lf)
  have fits: "\<forall>j. j + 1 < length layers \<longrightarrow> productFitsInt64 (levelFactor example_store) layers j"
    unfolding layers using p0 by simp
  have "\<forall>j. j + 1 < length layers \<longrightarrow> sizeRatioInvariant (levelFactor example_store) layers j"
    unfolding layers using q0 by simp
  with q fits have b: "IsCompacted example_store 2 = Some (Inr True)" by simp
  have "\<forall>j. j + 1 < length layers \<longrightarrow> compactedRelationship (levelFactor example_store) layers j"
    unfolding layers by (simp add: compactedRelationship_def lf)
  with r have "IsCompacted example_store 2 = Some (Inr True)" by simp
  from a b c p0 q0 show ?thesis by blast
qed

text \<open>
  C10. \<open>IsCompacted\<close> on a composite whose pointer list flattens to no primitive layer
  at all returns true, without an error: \<open>indexOfCompacted\<close> of the empty layer list is
  its length 0. Only empty metadata fails.
\<close>

theorem IsCompacted_empty_Composite:
  "store_Get s fid = Inr (Metadata_Composite x) \<Longrightarrow> PointsTo x = Inr ids \<Longrightarrow>
     Flatten s ids = Some (Inr []) \<Longrightarrow>
     IsCompacted s fid = Some (Inr True) \<and> indexOfCompacted (levelFactor s) [] = length ([] :: Primitive list)"
  using IsCompacted_Composite [of s fid x ids "[]"] indexOfCompacted_short [of "[]" "levelFactor s"]
  by (simp add: isCompacted_def)

theorem IsCompacted_empty_Composite_witness:
  "store_Get example_store 5 = Inr (Metadata_Composite \<lparr>PointsTo = Inr [4, 4]\<rparr>)
   \<and> Flatten example_store [4, 4] = Some (Inr [])
   \<and> IsCompacted example_store 5 = Some (Inr True)"
proof -
  have g: "store_Get example_store 5 = Inr (Metadata_Composite \<lparr>PointsTo = Inr [4, 4]\<rparr>)"
    by (rule example_store_Get)
  have f: "Flatten example_store [4, 4] = Some (Inr [])"
    by (simp add: Flatten.simps example_store_Get)
  from IsCompacted_empty_Composite [OF g _ f] have "IsCompacted example_store 5 = Some (Inr True)"
    by simp
  with g f show ?thesis by blast
qed

subsection \<open>The sequential compactor: results and termination\<close>

lemma Merge_Inr:
  assumes "Merge ext s ids = (Inr merged, s')"
  obtains prim where "merged = length (store s)"
    and "store s' = store s @ [Metadata_Primitive prim]"
    and "levelFactor s' = levelFactor s"
  using assms by (auto simp: Merge_def split: sum.splits)

lemma Compose_Inr:
  assumes "Compose ext s ids = (Inr r, s')"
  shows "r = length (store s)
    \<and> store s' = store s @ [Metadata_Composite \<lparr>PointsTo = Inr ids\<rparr>]
    \<and> levelFactor s' = levelFactor s"
  using assms by (auto simp: Compose_def split: option.splits)

text \<open>One call of \<open>Compact\<close> once the caller's list has been flattened.\<close>

lemma Compact_unfold:
  assumes "Flatten s ids0 = Some (Inr ids)"
  shows "Compact ext ids0 s =
    (let inputs = map (\<lambda>fid. projr (getPrimitive s fid)) ids;
         i = indexOfCompacted (levelFactor s) inputs
     in if i = length ids then Some (Compose ext s ids)
        else (case Merge ext s (drop i ids) of
                (Inl err, s') \<Rightarrow> Some (Inl err, s')
              | (Inr merged, s') \<Rightarrow> Compact ext (take i ids @ [merged]) s'))"
  using assms Flatten_then_batch [OF assms]
  by (subst Compact.simps) (simp add: Let_def)

lemma Compact_flattened:
  assumes "Flatten s ids0 = Some (Inr ids)"
  shows "Compact ext ids0 s = Compact ext ids s"
proof -
  have "Flatten s ids = Some (Inr ids)"
    using Flatten_yields_primitives [OF assms refl] by (rule Flatten_primitives)
  from Compact_unfold [OF this] Compact_unfold [OF assms] show ?thesis by simp
qed

lemma merge_branch_primitives:
  assumes prims: "\<forall>fid \<in> set ids. \<exists>p. getPrimitive s fid = Inr p"
    and m: "Merge ext s (drop i ids) = (Inr merged, s')"
  shows "\<forall>fid \<in> set (take i ids @ [merged]). \<exists>p. getPrimitive s' fid = Inr p"
proof -
  from m obtain prim where merged: "merged = length (store s)"
    and st: "store s' = store s @ [Metadata_Primitive prim]"
    by (rule Merge_Inr)
  have "getPrimitive s' merged = Inr prim"
    using store_Get_new [OF st] merged by (simp add: getPrimitive_Inr_iff)
  moreover have "\<forall>fid \<in> set (take i ids). \<exists>p. getPrimitive s' fid = Inr p"
    using prims getPrimitive_append [OF _ st] by (meson in_set_takeD)
  ultimately show ?thesis by auto
qed

lemma Compact_returns_flattened:
  "\<forall>fid \<in> set ids. \<exists>p. getPrimitive s fid = Inr p \<Longrightarrow> \<exists>out. Compact ext ids s = Some out"
proof (induction "length ids" arbitrary: ids s rule: less_induct)
  case less
  let ?inputs = "map (\<lambda>fid. projr (getPrimitive s fid)) ids"
  let ?i = "indexOfCompacted (levelFactor s) ?inputs"
  have fl: "Flatten s ids = Some (Inr ids)" using less.prems by (rule Flatten_primitives)
  note unf = Compact_unfold [OF fl, of ext]
  show ?case
  proof (cases "?i = length ids")
    case True
    then show ?thesis using unf by (simp add: Let_def)
  next
    case False
    then have lt: "?i + 1 < length ids"
      using indexOfCompacted_break [of "levelFactor s" ?inputs] by simp
    obtain res s' where m: "Merge ext s (drop ?i ids) = (res, s')" by (cases "Merge ext s (drop ?i ids)")
    show ?thesis
    proof (cases res)
      case (Inl err)
      then show ?thesis using unf False m by (simp add: Let_def)
    next
      case (Inr merged)
      have "length (take ?i ids @ [merged]) < length ids" using lt by simp
      moreover have "\<forall>fid \<in> set (take ?i ids @ [merged]). \<exists>p. getPrimitive s' fid = Inr p"
        using less.prems m Inr by (intro merge_branch_primitives [of ids s ext ?i merged s']) simp_all
      ultimately have "\<exists>out. Compact ext (take ?i ids @ [merged]) s' = Some out"
        by (rule less.hyps)
      then show ?thesis using unf False m Inr by (simp add: Let_def)
    qed
  qed
qed

lemma Compose_result_flattens:
  assumes prims: "\<forall>fid \<in> set ids. \<exists>p. getPrimitive s fid = Inr p"
    and c: "Compose ext s ids = (Inr r, s')"
  shows "Flatten s' [r] = Some (Inr ids)
    \<and> getPrimitiveBatch s' ids = Inr (map (\<lambda>fid. projr (getPrimitive s fid)) ids)"
proof -
  from Compose_Inr [OF c] have r: "r = length (store s)"
    and st: "store s' = store s @ [Metadata_Composite \<lparr>PointsTo = Inr ids\<rparr>]" by simp_all
  have g: "store_Get s' r = Inr (Metadata_Composite \<lparr>PointsTo = Inr ids\<rparr>)"
    using store_Get_new [OF st] r by simp
  have "\<forall>fid \<in> set ids. \<exists>p. getPrimitive s' fid = Inr p"
    using prims getPrimitive_append [OF _ st] by blast
  then have "Flatten s' ids = Some (Inr ids)" by (rule Flatten_primitives)
  then have f: "Flatten s' [r] = Some (Inr ids)"
    using g by (subst Flatten.simps) (simp add: Flatten_Nil)
  have "getPrimitiveBatch s ids = Inr (map (\<lambda>fid. projr (getPrimitive s fid)) ids)"
    using prims by (rule getPrimitiveBatch_primitives)
  from getPrimitiveBatch_append [OF this st] f show ?thesis by simp
qed

lemma Compact_result_flattened:
  "\<forall>fid \<in> set ids. \<exists>p. getPrimitive s fid = Inr p \<Longrightarrow> Compact ext ids s = Some (Inr r, s') \<Longrightarrow>
     levelFactor s' = levelFactor s
     \<and> (\<exists>flat layers. Flatten s' [r] = Some (Inr flat) \<and> getPrimitiveBatch s' flat = Inr layers
           \<and> isCompacted (levelFactor s') layers)"
proof (induction "length ids" arbitrary: ids s rule: less_induct)
  case less
  let ?inputs = "map (\<lambda>fid. projr (getPrimitive s fid)) ids"
  let ?i = "indexOfCompacted (levelFactor s) ?inputs"
  have fl: "Flatten s ids = Some (Inr ids)" using less.prems(1) by (rule Flatten_primitives)
  note unf = Compact_unfold [OF fl, of ext]
  show ?case
  proof (cases "?i = length ids")
    case True
    then have c: "Compose ext s ids = (Inr r, s')" using unf less.prems(2) by (simp add: Let_def)
    from True have "isCompacted (levelFactor s) ?inputs" by (simp add: isCompacted_def)
    then show ?thesis
      using Compose_result_flattens [OF less.prems(1) c] Compose_Inr [OF c] by auto
  next
    case False
    then have lt: "?i + 1 < length ids"
      using indexOfCompacted_break [of "levelFactor s" ?inputs] by simp
    obtain res s1 where m: "Merge ext s (drop ?i ids) = (res, s1)" by (cases "Merge ext s (drop ?i ids)")
    show ?thesis
    proof (cases res)
      case (Inl err)
      then show ?thesis using unf False m less.prems(2) by (simp add: Let_def)
    next
      case (Inr merged)
      have len: "length (take ?i ids @ [merged]) < length ids" using lt by simp
      have prims: "\<forall>fid \<in> set (take ?i ids @ [merged]). \<exists>p. getPrimitive s1 fid = Inr p"
        using less.prems(1) m Inr by (intro merge_branch_primitives [of ids s ext ?i merged s1]) simp_all
      have rec: "Compact ext (take ?i ids @ [merged]) s1 = Some (Inr r, s')"
        using unf False m Inr less.prems(2) by (simp add: Let_def)
      have "levelFactor s1 = levelFactor s" using m Inr by (auto elim: Merge_Inr)
      with less.hyps [OF len prims rec] show ?thesis by auto
    qed
  qed
qed


lemma Compact_Inr_Flatten:
  assumes "Compact ext ids0 s = Some (Inr r, s')"
  obtains ids where "Flatten s ids0 = Some (Inr ids)"
proof (cases "Flatten s ids0")
  case None
  then show ?thesis using assms by (subst (asm) Compact.simps) simp
next
  case (Some res)
  then show ?thesis using assms that by (cases res; subst (asm) Compact.simps) simp_all
qed

text \<open>
  C1, amended. Whatever list \<open>Compact\<close> is given (in particular a list of primitive
  layers of any sizes) and whatever the level factor, when \<open>Compact\<close> succeeds and
  returns the reference \<open>r\<close>, the layers that \<open>r\<close> flattens to satisfy
  \<^verbatim>\<open>size[j] >= size[j+1] * levelFactor\<close> with Go's wrapping \<^verbatim>\<open>int64\<close> product at every
  adjacent pair, and so the inequality over the integers at every adjacent pair whose
  product \<^verbatim>\<open>size[j+1] * levelFactor\<close> does not overflow \<^verbatim>\<open>int64\<close>. \<open>Merge\<close> writes one new
  primitive, as the spec says.
\<close>

theorem Compact_restores_invariant:
  "Compact ext ids s = Some (Inr r, s') \<Longrightarrow>
     \<exists>flat layers. Flatten s' [r] = Some (Inr flat) \<and> getPrimitiveBatch s' flat = Inr layers
       \<and> (\<forall>j. j + 1 < length layers \<longrightarrow>
             compactedRelationship (levelFactor s') layers j
             \<and> (productFitsInt64 (levelFactor s') layers j
                  \<longrightarrow> sizeRatioInvariant (levelFactor s') layers j))
       \<and> levelFactor s' = levelFactor s"
proof -
  assume c: "Compact ext ids s = Some (Inr r, s')"
  then obtain flat0 where f: "Flatten s ids = Some (Inr flat0)" by (rule Compact_Inr_Flatten)
  have prims: "\<forall>fid \<in> set flat0. \<exists>p. getPrimitive s fid = Inr p"
    using Flatten_yields_primitives [OF f refl] .
  have "Compact ext flat0 s = Some (Inr r, s')" using Compact_flattened [OF f] c by simp
  from Compact_result_flattened [OF prims this] obtain flat layers where
    lf: "levelFactor s' = levelFactor s"
    and fl: "Flatten s' [r] = Some (Inr flat)" and b: "getPrimitiveBatch s' flat = Inr layers"
    and ic: "isCompacted (levelFactor s') layers" by blast
  have "\<forall>j. j + 1 < length layers \<longrightarrow>
             compactedRelationship (levelFactor s') layers j
             \<and> (productFitsInt64 (levelFactor s') layers j
                  \<longrightarrow> sizeRatioInvariant (levelFactor s') layers j)"
    using ic compactedRelationship_no_overflow [of "levelFactor s'" layers]
    unfolding isCompacted_iff by blast
  with lf fl b show ?thesis by blast
qed

lemma example_getPrimitive:
  "getPrimitive example_store 0 = Inr \<lparr>SizeBytes = 100\<rparr>"
  "getPrimitive example_store 1 = Inr \<lparr>SizeBytes = 4\<rparr>"
  "getPrimitive example_store (Suc 0) = Inr \<lparr>SizeBytes = 4\<rparr>"
  "getPrimitive example_store 6 = Inr \<lparr>SizeBytes = 50\<rparr>"
  by (simp_all add: getPrimitive_def example_store_Get)

lemma example_Compact_100_50_4:
  "Compact example_externals [0, 6, 1] example_store =
     Some (Inr 8, example_store\<lparr>store := store example_store
        @ [Metadata_Primitive \<lparr>SizeBytes = 154\<rparr>, Metadata_Composite \<lparr>PointsTo = Inr [7]\<rparr>]\<rparr>)"
  by (simp add: Compact.simps Flatten.simps getPrimitiveBatch_def getPrimitive_def store_Get_def
      indexOfCompacted_def indexOfCompacted_loop.simps Merge_def Compose_def
      example_store_def example_externals_def)

text \<open>
  C1, as stated, reads \<^verbatim>\<open>size[j] >= size[j+1] * f\<close> over the integers. On the overflow
  store (sizes 1 and \<open>2 ^ 62\<close>, positive level factor 4) \<open>Compact\<close> finds the two primitives
  compacted, because the \<^verbatim>\<open>int64\<close> product wraps around to 0, and composes them unmerged:
  the result flattens to layers that violate the integer inequality.
\<close>

theorem Compact_overflow_counterexample:
  "0 <s levelFactor overflow_store
   \<and> Compact example_externals [0, 1] overflow_store
       = Some (Inr 3, overflow_store\<lparr>store := store overflow_store
            @ [Metadata_Composite \<lparr>PointsTo = Inr [0, 1]\<rparr>]\<rparr>)
   \<and> Flatten (overflow_store\<lparr>store := store overflow_store
            @ [Metadata_Composite \<lparr>PointsTo = Inr [0, 1]\<rparr>]\<rparr>) [3] = Some (Inr [0, 1])
   \<and> getPrimitiveBatch (overflow_store\<lparr>store := store overflow_store
            @ [Metadata_Composite \<lparr>PointsTo = Inr [0, 1]\<rparr>]\<rparr>) [0, 1]
       = Inr [\<lparr>SizeBytes = 1\<rparr>, \<lparr>SizeBytes = 4611686018427387904\<rparr>]
   \<and> \<not> sizeRatioInvariant (levelFactor overflow_store)
         [\<lparr>SizeBytes = 1\<rparr>, \<lparr>SizeBytes = 4611686018427387904\<rparr>] 0"
proof -
  let ?s' = "overflow_store\<lparr>store := store overflow_store
            @ [Metadata_Composite \<lparr>PointsTo = Inr [0, 1]\<rparr>]\<rparr>"
  have lf: "levelFactor overflow_store = 4" by (simp add: overflow_store_def)
  have pos: "0 <s levelFactor overflow_store" by (simp add: lf word_sless_alt)
  have c: "Compose example_externals overflow_store [0, 1] = (Inr 3, ?s')"
    by (simp add: Compose_def example_externals_def overflow_store_def)
  have run: "Compact example_externals [0, 1] overflow_store = Some (Inr 3, ?s')"
    using overflow_Flatten overflow_getPrimitiveBatch overflow_layers(4) c
    by (subst Compact.simps) (simp add: lf)
  have f: "Flatten ?s' [3] = Some (Inr [0, 1])"
    by (simp add: Flatten.simps store_Get_def overflow_store_def)
  have b: "getPrimitiveBatch ?s' [0, 1]
      = Inr [\<lparr>SizeBytes = 1\<rparr>, \<lparr>SizeBytes = 4611686018427387904\<rparr>]"
    by (simp add: getPrimitiveBatch_def getPrimitive_def store_Get_def overflow_store_def)
  from pos run f b overflow_layers(2) lf show ?thesis by simp
qed

text \<open>
  The theorem on the spec's scenario (level factor 10 and layers of sizes 100, 50, 4,
  merged into one layer) and on the compacted layers of sizes 100 and 4, which are kept.
\<close>

theorem Compact_restores_invariant_witness:
  "Compact example_externals [0, 6, 1] example_store =
     Some (Inr 8, example_store\<lparr>store := store example_store
        @ [Metadata_Primitive \<lparr>SizeBytes = 154\<rparr>, Metadata_Composite \<lparr>PointsTo = Inr [7]\<rparr>]\<rparr>)
   \<and> (\<exists>flat layers.
         Flatten (example_store\<lparr>store := store example_store
            @ [Metadata_Primitive \<lparr>SizeBytes = 154\<rparr>, Metadata_Composite \<lparr>PointsTo = Inr [7]\<rparr>]\<rparr>) [8]
           = Some (Inr flat)
         \<and> getPrimitiveBatch (example_store\<lparr>store := store example_store
            @ [Metadata_Primitive \<lparr>SizeBytes = 154\<rparr>, Metadata_Composite \<lparr>PointsTo = Inr [7]\<rparr>]\<rparr>) flat
           = Inr layers
         \<and> isCompacted 10 layers)
   \<and> Compact example_externals [0, 1] example_store =
       Some (Inr 7, example_store\<lparr>store := store example_store
          @ [Metadata_Composite \<lparr>PointsTo = Inr [0, 1]\<rparr>]\<rparr>)
   \<and> getPrimitiveBatch (example_store\<lparr>store := store example_store
          @ [Metadata_Composite \<lparr>PointsTo = Inr [0, 1]\<rparr>]\<rparr>) [0, 1]
       = Inr [\<lparr>SizeBytes = 100\<rparr>, \<lparr>SizeBytes = 4\<rparr>]
   \<and> productFitsInt64 10 [\<lparr>SizeBytes = 100\<rparr>, \<lparr>SizeBytes = 4\<rparr>] 0
   \<and> sizeRatioInvariant 10 [\<lparr>SizeBytes = 100\<rparr>, \<lparr>SizeBytes = 4\<rparr>] 0"
proof -
  let ?s' = "example_store\<lparr>store := store example_store
        @ [Metadata_Primitive \<lparr>SizeBytes = 154\<rparr>, Metadata_Composite \<lparr>PointsTo = Inr [7]\<rparr>]\<rparr>"
  let ?s2 = "example_store\<lparr>store := store example_store
        @ [Metadata_Composite \<lparr>PointsTo = Inr [0, 1]\<rparr>]\<rparr>"
  let ?L = "[\<lparr>SizeBytes = 100\<rparr>, \<lparr>SizeBytes = 4 :: int64\<rparr>]"
  have run: "Compact example_externals [0, 6, 1] example_store = Some (Inr 8, ?s')"
    by (rule example_Compact_100_50_4)
  from Compact_restores_invariant [OF run] obtain flat layers where
    "Flatten ?s' [8] = Some (Inr flat)" and "getPrimitiveBatch ?s' flat = Inr layers"
    and "\<forall>j. j + 1 < length layers \<longrightarrow> compactedRelationship (levelFactor ?s') layers j"
    by blast
  moreover have "levelFactor ?s' = 10" by (simp add: example_store_def)
  ultimately have one: "Flatten ?s' [8] = Some (Inr flat) \<and> getPrimitiveBatch ?s' flat = Inr layers
      \<and> isCompacted 10 layers"
    by (simp add: isCompacted_iff)
  have run2: "Compact example_externals [0, 1] example_store = Some (Inr 7, ?s2)"
    by (simp add: Compact.simps Flatten.simps getPrimitiveBatch_def getPrimitive_def store_Get_def
        indexOfCompacted_def indexOfCompacted_loop.simps Compose_def
        example_store_def example_externals_def)
  have lf2: "levelFactor ?s2 = 10" by (simp add: example_store_def)
  have f2: "Flatten ?s2 [7] = Some (Inr [0, 1])"
    by (simp add: Flatten.simps store_Get_def example_store_def)
  have b2: "getPrimitiveBatch ?s2 [0, 1] = Inr ?L"
    by (simp add: getPrimitiveBatch_def getPrimitive_def store_Get_def example_store_def)
  have p: "productFitsInt64 10 ?L 0" by (simp add: productFitsInt64_def)
  from Compact_restores_invariant [OF run2] obtain flat2 layers2 where
    "Flatten ?s2 [7] = Some (Inr flat2)" and "getPrimitiveBatch ?s2 flat2 = Inr layers2"
    and all: "\<forall>j. j + 1 < length layers2 \<longrightarrow>
       compactedRelationship (levelFactor ?s2) layers2 j
       \<and> (productFitsInt64 (levelFactor ?s2) layers2 j
            \<longrightarrow> sizeRatioInvariant (levelFactor ?s2) layers2 j)"
    by blast
  with f2 b2 have "layers2 = ?L" by simp
  with all lf2 p have q: "sizeRatioInvariant 10 ?L 0" by simp
  from run one run2 b2 p q show ?thesis by blast
qed

text \<open>
  C2, as stated, says that an already compacted input is composed over the caller's
  original list. The code assigns the flattened list to \<^verbatim>\<open>ids\<close> before it calls
  \<^verbatim>\<open>Compose\<close>: for the composite 2 of the example store, which points to the compacted
  primitives 0 and 1, it composes \<open>[0, 1]\<close> and not \<open>[2]\<close>.
\<close>

theorem Compact_composes_original_counterexample:
  "Flatten example_store [2] = Some (Inr [0, 1])
   \<and> getPrimitiveBatch example_store [0, 1] = Inr [\<lparr>SizeBytes = 100\<rparr>, \<lparr>SizeBytes = 4\<rparr>]
   \<and> indexOfCompacted (levelFactor example_store) [\<lparr>SizeBytes = 100\<rparr>, \<lparr>SizeBytes = 4\<rparr>]
       = length [\<lparr>SizeBytes = 100\<rparr>, \<lparr>SizeBytes = 4 :: int64\<rparr>]
   \<and> Compact example_externals [2] example_store
       = Some (Compose example_externals example_store [0, 1])
   \<and> Compact example_externals [2] example_store
       \<noteq> Some (Compose example_externals example_store [2])"
  by (simp add: Compact.simps Flatten.simps getPrimitiveBatch_def getPrimitive_def store_Get_def
      indexOfCompacted_def indexOfCompacted_loop.simps Compose_def
      example_store_def example_externals_def)

text \<open>
  C2, amended. When \<open>Compact\<close> finds its input already compacted (\<open>indexOfCompacted\<close>
  equals the layer count), it returns what \<open>Compose\<close> returns on the flattened primitive
  list (the result of \<open>Flatten\<close> on the caller's list); no \<open>Merge\<close> happens, and the
  reference returned flattens to exactly the input's flattened layers, in the same order
  and with the same sizes.
\<close>

theorem Compact_already_compacted:
  assumes "Flatten s ids0 = Some (Inr ids)"
    and "getPrimitiveBatch s ids = Inr inputs"
    and "indexOfCompacted (levelFactor s) inputs = length inputs"
  shows "Compact ext ids0 s = Some (Compose ext s ids)
    \<and> (\<forall>r s'. Compose ext s ids = (Inr r, s')
          \<longrightarrow> Flatten s' [r] = Some (Inr ids) \<and> getPrimitiveBatch s' ids = Inr inputs)"
proof -
  from getPrimitiveBatch_Inr [OF assms(2)]
  have prims: "\<forall>fid \<in> set ids. \<exists>p. getPrimitive s fid = Inr p"
    and inputs: "inputs = map (\<lambda>fid. projr (getPrimitive s fid)) ids" by simp_all
  have "Compact ext ids0 s = Some (Compose ext s ids)"
    using Compact_unfold [OF assms(1), of ext] assms(3) inputs by (simp add: Let_def)
  moreover have "\<forall>r s'. Compose ext s ids = (Inr r, s')
          \<longrightarrow> Flatten s' [r] = Some (Inr ids) \<and> getPrimitiveBatch s' ids = Inr inputs"
    using Compose_result_flattens [OF prims] inputs by blast
  ultimately show ?thesis by blast
qed

theorem Compact_already_compacted_witness:
  "Flatten example_store [2] = Some (Inr [0, 1])
   \<and> Compact example_externals [2] example_store
       = Some (Inr 7, example_store\<lparr>store := store example_store
            @ [Metadata_Composite \<lparr>PointsTo = Inr [0, 1]\<rparr>]\<rparr>)
   \<and> Flatten (example_store\<lparr>store := store example_store
            @ [Metadata_Composite \<lparr>PointsTo = Inr [0, 1]\<rparr>]\<rparr>) [7] = Some (Inr [0, 1])"
proof -
  let ?s' = "example_store\<lparr>store := store example_store
            @ [Metadata_Composite \<lparr>PointsTo = Inr [0, 1]\<rparr>]\<rparr>"
  have f: "Flatten example_store [2] = Some (Inr [0, 1])"
    by (simp add: Flatten.simps example_store_Get)
  have b: "getPrimitiveBatch example_store [0, 1] = Inr [\<lparr>SizeBytes = 100\<rparr>, \<lparr>SizeBytes = 4\<rparr>]"
    by (simp add: getPrimitiveBatch_def example_getPrimitive)
  have i: "indexOfCompacted (levelFactor example_store) [\<lparr>SizeBytes = 100\<rparr>, \<lparr>SizeBytes = 4\<rparr>]
      = length [\<lparr>SizeBytes = 100\<rparr>, \<lparr>SizeBytes = 4 :: int64\<rparr>]"
    by (simp add: indexOfCompacted_def indexOfCompacted_loop.simps example_store_def)
  have c: "Compose example_externals example_store [0, 1] = (Inr 7, ?s')"
    by (simp add: Compose_def example_externals_def example_store_def)
  note am = Compact_already_compacted [OF f b i, of example_externals]
  from am c have "Compact example_externals [2] example_store = Some (Inr 7, ?s')" by simp
  moreover from am c have "Flatten ?s' [7] = Some (Inr [0, 1])" by blast
  ultimately show ?thesis using f by blast
qed

lemma Flatten_returns_bounded:
  assumes "store_wellformed s"
  shows "\<forall>fid \<in> set ids. fid < b \<Longrightarrow> \<exists>r. Flatten s ids = Some r"
proof (induction b arbitrary: ids rule: less_induct)
  case (less b)
  note outer = less.IH
  from less.prems show ?case
  proof (induction ids)
    case Nil
    show ?case by (simp add: Flatten_Nil)
  next
    case (Cons fid rest)
    then obtain r where rest: "Flatten s rest = Some r" by auto
    show ?case
    proof (cases "store_Get s fid")
      case (Inl err)
      then show ?thesis by (subst Flatten.simps) simp
    next
      case (Inr md)
      show ?thesis
      proof (cases md)
        case (Metadata_Primitive p)
        then show ?thesis using Inr rest by (subst Flatten.simps) (cases r; simp)
      next
        case Metadata_Empty
        then show ?thesis using Inr by (subst Flatten.simps) simp
      next
        case (Metadata_Composite x)
        show ?thesis
        proof (cases "PointsTo x")
          case (Inl err)
          then show ?thesis using Inr Metadata_Composite by (subst Flatten.simps) simp
        next
          case (Inr ids2)
          have "\<forall>p \<in> set ids2. p < fid"
            using assms \<open>store_Get s fid = Inr md\<close> Metadata_Composite Inr
            unfolding store_wellformed_def by blast
          moreover have "fid < b" using Cons.prems by simp
          ultimately obtain r2 where r2: "Flatten s ids2 = Some r2"
            using outer [of fid ids2] by blast
          show ?thesis
            using \<open>store_Get s fid = Inr md\<close> Metadata_Composite Inr r2 rest
            by (subst Flatten.simps) (cases r2; cases r; simp)
        qed
      qed
    qed
  qed
qed

lemma Flatten_returns:
  assumes "store_wellformed s"
  shows "\<exists>r. Flatten s ids = Some r"
proof -
  have "\<forall>fid \<in> set ids. fid < Suc (sum_list ids)"
    by (simp add: less_Suc_eq_le member_le_sum_list)
  then show ?thesis by (rule Flatten_returns_bounded [OF assms])
qed

lemma store_wellformed_Merge:
  assumes "store_wellformed s" and "Merge ext s ids = (res, s')"
  shows "store_wellformed s'"
proof (cases res)
  case (Inl err)
  then show ?thesis using assms by (auto simp: Merge_def split: sum.splits)
next
  case (Inr merged)
  with assms(2) obtain prim where st: "store s' = store s @ [Metadata_Primitive prim]"
    by (auto elim: Merge_Inr)
  show ?thesis
    unfolding store_wellformed_def
  proof (intro allI impI)
    fix fid x ids'
    assume a: "store_Get s' fid = Inr (Metadata_Composite x) \<and> PointsTo x = Inr ids'"
    then have "fid < length (store s') " using store_Get_Inr_less by blast
    then have "fid < length (store s) \<or> fid = length (store s)" using st by auto
    then show "\<forall>p \<in> set ids'. p < fid"
    proof
      assume "fid < length (store s)"
      then have "store_Get s fid = store_Get s' fid" using store_Get_append [OF _ st] by simp
      with a assms(1) show ?thesis unfolding store_wellformed_def by metis
    next
      assume "fid = length (store s)"
      then show ?thesis using a store_Get_new [OF st] by simp
    qed
  qed
qed

lemma store_wellformed_Compose:
  assumes "store_wellformed s" and "Compose ext s ids = (res, s')"
    and "\<forall>p \<in> set ids. p < length (store s)"
  shows "store_wellformed s'"
proof (cases res)
  case (Inl err)
  then show ?thesis using assms by (auto simp: Compose_def split: option.splits)
next
  case (Inr r)
  with assms(2) have st: "store s' = store s @ [Metadata_Composite \<lparr>PointsTo = Inr ids\<rparr>]"
    using Compose_Inr by blast
  show ?thesis
    unfolding store_wellformed_def
  proof (intro allI impI)
    fix fid x ids'
    assume a: "store_Get s' fid = Inr (Metadata_Composite x) \<and> PointsTo x = Inr ids'"
    then have "fid < length (store s') " using store_Get_Inr_less by blast
    then have "fid < length (store s) \<or> fid = length (store s)" using st by auto
    then show "\<forall>p \<in> set ids'. p < fid"
    proof
      assume "fid < length (store s)"
      then have "store_Get s fid = store_Get s' fid" using store_Get_append [OF _ st] by simp
      with a assms(1) show ?thesis unfolding store_wellformed_def by metis
    next
      assume f: "fid = length (store s)"
      then have "x = \<lparr>PointsTo = Inr ids\<rparr>" using a store_Get_new [OF st] by simp
      then have "ids' = ids" using a by simp
      then show ?thesis using assms(3) f by simp
    qed
  qed
qed

lemma Compact_preserves_wellformed:
  "\<forall>fid \<in> set ids. \<exists>p. getPrimitive s fid = Inr p \<Longrightarrow> store_wellformed s \<Longrightarrow>
     Compact ext ids s = Some (res, s') \<Longrightarrow> store_wellformed s'"
proof (induction "length ids" arbitrary: ids s rule: less_induct)
  case less
  let ?inputs = "map (\<lambda>fid. projr (getPrimitive s fid)) ids"
  let ?i = "indexOfCompacted (levelFactor s) ?inputs"
  have fl: "Flatten s ids = Some (Inr ids)" using less.prems(1) by (rule Flatten_primitives)
  note unf = Compact_unfold [OF fl, of ext]
  show ?case
  proof (cases "?i = length ids")
    case True
    then have c: "Compose ext s ids = (res, s')" using unf less.prems(3) by (simp add: Let_def)
    have "\<forall>p \<in> set ids. p < length (store s)"
      using less.prems(1) store_Get_Inr_less by (fastforce simp: getPrimitive_Inr_iff)
    from store_wellformed_Compose [OF less.prems(2) c this] show ?thesis .
  next
    case False
    then have lt: "?i + 1 < length ids"
      using indexOfCompacted_break [of "levelFactor s" ?inputs] by simp
    obtain res1 s1 where m: "Merge ext s (drop ?i ids) = (res1, s1)"
      by (cases "Merge ext s (drop ?i ids)")
    have wf1: "store_wellformed s1" using store_wellformed_Merge [OF less.prems(2) m] .
    show ?thesis
    proof (cases res1)
      case (Inl err)
      then have "s' = s1" using unf False m less.prems(3) by (simp add: Let_def)
      with wf1 show ?thesis by simp
    next
      case (Inr merged)
      have len: "length (take ?i ids @ [merged]) < length ids" using lt by simp
      have prims: "\<forall>fid \<in> set (take ?i ids @ [merged]). \<exists>p. getPrimitive s1 fid = Inr p"
        using less.prems(1) m Inr by (intro merge_branch_primitives [of ids s ext ?i merged s1]) simp_all
      have rec: "Compact ext (take ?i ids @ [merged]) s1 = Some (res, s')"
        using unf False m Inr less.prems(3) by (simp add: Let_def)
      from less.hyps [OF len prims wf1 rec] show ?thesis .
    qed
  qed
qed

lemma example_store_wellformed: "store_wellformed example_store"
  unfolding store_wellformed_def
proof (intro allI impI)
  fix fid x ids
  assume a: "store_Get example_store fid = Inr (Metadata_Composite x) \<and> PointsTo x = Inr ids"
  then have "fid < 7" using store_Get_Inr_less [of example_store fid] by (simp add: example_store_def)
  then consider "fid = 0" | "fid = 1" | "fid = 2" | "fid = 3" | "fid = 4" | "fid = 5" | "fid = 6"
    by linarith
  then show "\<forall>p \<in> set ids. p < fid"
    using a by cases (auto simp: example_store_Get)
qed

lemma Compact_wellformed:
  assumes "store_wellformed s" and "Compact ext ids0 s = Some (res, s')"
  shows "store_wellformed s'"
proof -
  from Flatten_returns [OF assms(1)] obtain r where r: "Flatten s ids0 = Some r" by blast
  show ?thesis
  proof (cases r)
    case (Inl err)
    then have "s' = s" using r assms(2) by (subst (asm) Compact.simps) simp
    then show ?thesis using assms(1) by simp
  next
    case (Inr flat)
    with r have f: "Flatten s ids0 = Some (Inr flat)" by simp
    have "Compact ext flat s = Some (res, s')" using Compact_flattened [OF f] assms(2) by simp
    from Compact_preserves_wellformed [OF Flatten_yields_primitives [OF f refl] assms(1) this]
    show ?thesis .
  qed
qed

text \<open>
  C6. \<open>Compact\<close> returns on every input on which its first call of \<open>Flatten\<close> returns,
  and so on every input over a well-formed store (one whose composites point to earlier
  references, as every store built by \<open>Compose\<close> and \<open>Merge\<close> is), which it leaves
  well-formed. Whenever it takes the merge branch, the merged suffix has at least two
  elements, the list passed to the recursive call is strictly shorter than the current
  flattened list and is its own flattening, so the next call works on a shorter list; a
  list of length at most 1 is composed at once.
\<close>

theorem Compact_terminates:
  "(Flatten s ids0 = Some res \<longrightarrow> (\<exists>out. Compact ext ids0 s = Some out))
   \<and> (store_wellformed s
      \<longrightarrow> (\<exists>out s'. Compact ext ids0 s = Some (out, s') \<and> store_wellformed s'))
   \<and> (Flatten s ids0 = Some (Inr ids) \<and> getPrimitiveBatch s ids = Inr inputs
        \<and> i = indexOfCompacted (levelFactor s) inputs \<and> i \<noteq> length inputs
        \<and> Merge ext s (drop i ids) = (Inr merged, s')
      \<longrightarrow> 2 \<le> length (drop i ids)
          \<and> length (take i ids @ [merged]) < length ids
          \<and> Flatten s' (take i ids @ [merged]) = Some (Inr (take i ids @ [merged]))
          \<and> Compact ext ids0 s = Compact ext (take i ids @ [merged]) s')
   \<and> (Flatten s ids0 = Some (Inr ids) \<and> length ids \<le> 1
      \<longrightarrow> Compact ext ids0 s = Some (Compose ext s ids))"
proof -
  have returns: "\<exists>out. Compact ext ids0 s = Some out" if f: "Flatten s ids0 = Some r" for r
  proof (cases r)
    case (Inl err)
    then show ?thesis using f by (subst Compact.simps) simp
  next
    case (Inr flat)
    with f have f': "Flatten s ids0 = Some (Inr flat)" by simp
    from Compact_returns_flattened [OF Flatten_yields_primitives [OF f' refl], of ext]
      Compact_flattened [OF f', of ext]
    show ?thesis by simp
  qed
  have wellformed: "\<exists>out s'. Compact ext ids0 s = Some (out, s') \<and> store_wellformed s'"
    if wf: "store_wellformed s"
  proof -
    from Flatten_returns [OF wf] obtain r where "Flatten s ids0 = Some r" by blast
    from returns [OF this] obtain out s' where c: "Compact ext ids0 s = Some (out, s')"
      by fastforce
    from Compact_wellformed [OF wf c] c show ?thesis by blast
  qed
  have short: "Compact ext ids0 s = Some (Compose ext s ids)"
    if f: "Flatten s ids0 = Some (Inr ids)" and l: "length ids \<le> 1"
  proof -
    have "indexOfCompacted (levelFactor s) (map (\<lambda>fid. projr (getPrimitive s fid)) ids)
        = length ids"
      using indexOfCompacted_short [of "map (\<lambda>fid. projr (getPrimitive s fid)) ids" "levelFactor s"] l
      by simp
    then show ?thesis using Compact_unfold [OF f, of ext] by (simp add: Let_def)
  qed
  have step: "2 \<le> length (drop i ids)
          \<and> length (take i ids @ [merged]) < length ids
          \<and> Flatten s' (take i ids @ [merged]) = Some (Inr (take i ids @ [merged]))
          \<and> Compact ext ids0 s = Compact ext (take i ids @ [merged]) s'"
    if f: "Flatten s ids0 = Some (Inr ids)" and b: "getPrimitiveBatch s ids = Inr inputs"
      and i: "i = indexOfCompacted (levelFactor s) inputs" and ne: "i \<noteq> length inputs"
      and m: "Merge ext s (drop i ids) = (Inr merged, s')"
  proof -
    from getPrimitiveBatch_Inr [OF b]
    have prims: "\<forall>fid \<in> set ids. \<exists>p. getPrimitive s fid = Inr p"
      and inputs: "inputs = map (\<lambda>fid. projr (getPrimitive s fid)) ids" by simp_all
    have len: "length inputs = length ids" using inputs by simp
    have lt: "i + 1 < length ids"
      using indexOfCompacted_break [of "levelFactor s" inputs] i ne len by simp
    have 1: "2 \<le> length (drop i ids)" using lt by simp
    have 2: "length (take i ids @ [merged]) < length ids" using lt by simp
    have 3: "Flatten s' (take i ids @ [merged]) = Some (Inr (take i ids @ [merged]))"
      using merge_branch_primitives [OF prims m] by (rule Flatten_primitives)
    have 4: "Compact ext ids0 s = Compact ext (take i ids @ [merged]) s'"
      using Compact_unfold [OF f, of ext] i ne len inputs m by (simp add: Let_def)
    from 1 2 3 4 show ?thesis by blast
  qed
  from returns wellformed short step show ?thesis by blast
qed

theorem Compact_terminates_witness:
  "Flatten example_store [0, 1, 6] = Some (Inr [0, 1, 6])
   \<and> store_wellformed example_store
   \<and> getPrimitiveBatch example_store [0, 1, 6]
       = Inr [\<lparr>SizeBytes = 100\<rparr>, \<lparr>SizeBytes = 4\<rparr>, \<lparr>SizeBytes = 50\<rparr>]
   \<and> indexOfCompacted 10 [\<lparr>SizeBytes = 100\<rparr>, \<lparr>SizeBytes = 4\<rparr>, \<lparr>SizeBytes = 50\<rparr>] = 1
   \<and> Merge example_externals example_store [1, 6]
       = (Inr 7, example_store\<lparr>store := store example_store @ [Metadata_Primitive \<lparr>SizeBytes = 54\<rparr>]\<rparr>)
   \<and> (\<exists>out s'. Compact example_externals [0, 1, 6] example_store = Some (out, s')
         \<and> store_wellformed s')
   \<and> length [0, 7 :: ID] < length [0, 1, 6 :: ID]
   \<and> Compact example_externals [0, 1, 6] example_store
       = Compact example_externals [0, 7]
           (example_store\<lparr>store := store example_store @ [Metadata_Primitive \<lparr>SizeBytes = 54\<rparr>]\<rparr>)
   \<and> Compact example_externals [6] example_store
       = Some (Compose example_externals example_store [6])"
proof -
  let ?s1 = "example_store\<lparr>store := store example_store @ [Metadata_Primitive \<lparr>SizeBytes = 54\<rparr>]\<rparr>"
  let ?inputs = "[\<lparr>SizeBytes = 100\<rparr>, \<lparr>SizeBytes = 4\<rparr>, \<lparr>SizeBytes = 50 :: int64\<rparr>]"
  have f: "Flatten example_store [0, 1, 6] = Some (Inr [0, 1, 6])"
    by (simp add: Flatten.simps example_store_Get)
  have b: "getPrimitiveBatch example_store [0, 1, 6] = Inr ?inputs"
    by (simp add: getPrimitiveBatch_def example_getPrimitive)
  have i: "indexOfCompacted 10 ?inputs = 1"
    by (simp add: indexOfCompacted_def indexOfCompacted_loop.simps)
  have m: "Merge example_externals example_store [1, 6] = (Inr 7, ?s1)"
    by (simp add: Merge_def example_externals_def example_getPrimitive) (simp add: example_store_def)
  note t = Compact_terminates [of example_store "[0, 1, 6]" "Inr [0, 1, 6]" example_externals
      "[0, 1, 6]" ?inputs 1 7 ?s1]
  have lf: "levelFactor example_store = 10" by (simp add: example_store_def)
  from t example_store_wellformed
  have r: "\<exists>out s'. Compact example_externals [0, 1, 6] example_store = Some (out, s')
         \<and> store_wellformed s'"
    by blast
  have pre: "Flatten example_store [0, 1, 6] = Some (Inr [0, 1, 6])
      \<and> getPrimitiveBatch example_store [0, 1, 6] = Inr ?inputs
      \<and> 1 = indexOfCompacted (levelFactor example_store) ?inputs \<and> 1 \<noteq> length ?inputs
      \<and> Merge example_externals example_store (drop 1 [0, 1, 6]) = (Inr 7, ?s1)"
    using f b i m lf by simp
  from t [THEN conjunct2, THEN conjunct2, THEN conjunct1, rule_format, OF pre]
  have "length (take 1 [0, 1, 6] @ [7 :: ID]) < length [0, 1, 6 :: ID]"
    and "Compact example_externals [0, 1, 6] example_store
       = Compact example_externals (take 1 [0, 1, 6] @ [7]) ?s1"
    by blast+
  then have l: "length [0, 7 :: ID] < length [0, 1, 6 :: ID]"
    and c: "Compact example_externals [0, 1, 6] example_store = Compact example_externals [0, 7] ?s1"
    by simp_all
  have "Flatten example_store [6] = Some (Inr [6]) \<and> length [6 :: ID] \<le> 1"
    by (simp add: Flatten.simps example_store_Get)
  from Compact_terminates [of example_store "[6]" _ example_externals "[6]",
      THEN conjunct2, THEN conjunct2, THEN conjunct2, rule_format, OF this]
  have s: "Compact example_externals [6] example_store
       = Some (Compose example_externals example_store [6])" .
  from f example_store_wellformed b i m r l c s show ?thesis by blast
qed

subsection \<open>The distributed compactor\<close>

lemma Shard_visit_tasks:
  "Shard_visit (\<lambda>pathRange tasks. Inr (tasks @ [\<lparr>Inputs = ids, PathRange = pathRange\<rparr>])) ranges acc
     = Inr (acc @ map (\<lambda>pathRange. \<lparr>Inputs = ids, PathRange = pathRange\<rparr>) ranges)"
  by (induction ranges arbitrary: acc) simp_all

lemma shardedCompact_tasks:
  assumes "shard_ranges ext s ids = Inr ranges"
  shows "shardedCompact c ext ids s =
    (case workerFunc c s (map (\<lambda>pathRange. \<lparr>Inputs = ids, PathRange = pathRange\<rparr>) ranges) of
       (Inl err, s') \<Rightarrow> (Inl err, s')
     | (Inr results, s') \<Rightarrow>
        if length results \<noteq> length ranges
        then (Inl (Errorf ''results are a different length than tasks''), s')
        else Concat ext s' results)"
  using assms
  by (simp add: shardedCompact_def Shard_def Shard_visit_tasks
      cong: prod.case_cong sum.case_cong if_cong)

text \<open>
  C7. In \<open>shardedCompact\<close>, the tasks are one per path range of \<open>Shard\<close>, each with the
  full input list. If the worker returns a result list whose length differs from the
  number of tasks (one result fewer, for instance), \<open>shardedCompact\<close>, and with it
  \<open>DistributedCompactor.Compact\<close> in its base case, fails with the error "results are a
  different length than tasks". \<open>Concat\<close> is not called: the outcome is the same for every
  \<open>Concat\<close>, and the storage is left as the worker left it.
\<close>

theorem shardedCompact_count_mismatch:
  assumes "shard_ranges ext s ids = Inr ranges"
    and "workerFunc c s (map (\<lambda>pathRange. \<lparr>Inputs = ids, PathRange = pathRange\<rparr>) ranges)
          = (Inr results, s')"
    and "length results \<noteq> length ranges"
  shows "shardedCompact c ext ids s
           = (Inl (Errorf ''results are a different length than tasks''), s')
    \<and> (\<forall>concat'. shardedCompact c (ext\<lparr>Concat := concat'\<rparr>) ids s
           = (Inl (Errorf ''results are a different length than tasks''), s'))
    \<and> (int (length ids) \<le> maxFanIn c \<longrightarrow>
         DistributedCompactor_Compact (Suc fuel) c ext ids s
           = Some (Inl (Errorf ''results are a different length than tasks''), s'))"
proof -
  have a: "shardedCompact c ext' ids s
           = (Inl (Errorf ''results are a different length than tasks''), s')"
    if "shard_ranges ext' s ids = Inr ranges" for ext'
    using shardedCompact_tasks [OF that, of c] assms(2,3) by simp
  have "shardedCompact c ext ids s
           = (Inl (Errorf ''results are a different length than tasks''), s')"
    using a assms(1) by blast
  moreover have "\<forall>concat'. shardedCompact c (ext\<lparr>Concat := concat'\<rparr>) ids s
           = (Inl (Errorf ''results are a different length than tasks''), s')"
    using a [of "ext\<lparr>Concat := concat'\<rparr>" for concat'] assms(1) by simp
  ultimately show ?thesis by simp
qed

text \<open>A worker that drops the last of its two results.\<close>

theorem shardedCompact_count_mismatch_witness:
  "shard_ranges example_externals example_store [0, 1]
     = Inr [\<lparr>Lower = ''a'', Upper = ''m''\<rparr>, \<lparr>Lower = ''m'', Upper = ''z''\<rparr>]
   \<and> workerFunc example_lossy_compactor example_store
        [\<lparr>Inputs = [0, 1], PathRange = \<lparr>Lower = ''a'', Upper = ''m''\<rparr>\<rparr>,
         \<lparr>Inputs = [0, 1], PathRange = \<lparr>Lower = ''m'', Upper = ''z''\<rparr>\<rparr>]
       = (Inr [7], example_store\<lparr>store := store example_store
            @ [Metadata_Primitive \<lparr>SizeBytes = 1\<rparr>, Metadata_Primitive \<lparr>SizeBytes = 1\<rparr>]\<rparr>)
   \<and> shardedCompact example_lossy_compactor example_externals [0, 1] example_store
       = (Inl (Errorf ''results are a different length than tasks''),
          example_store\<lparr>store := store example_store
            @ [Metadata_Primitive \<lparr>SizeBytes = 1\<rparr>, Metadata_Primitive \<lparr>SizeBytes = 1\<rparr>]\<rparr>)
   \<and> DistributedCompactor_Compact (Suc 0) example_lossy_compactor example_externals [0, 1] example_store
       = Some (Inl (Errorf ''results are a different length than tasks''),
          example_store\<lparr>store := store example_store
            @ [Metadata_Primitive \<lparr>SizeBytes = 1\<rparr>, Metadata_Primitive \<lparr>SizeBytes = 1\<rparr>]\<rparr>)"
proof -
  let ?ranges = "[\<lparr>Lower = ''a'', Upper = ''m''\<rparr>, \<lparr>Lower = ''m'', Upper = ''z''\<rparr>]"
  let ?s' = "example_store\<lparr>store := store example_store
            @ [Metadata_Primitive \<lparr>SizeBytes = 1\<rparr>, Metadata_Primitive \<lparr>SizeBytes = 1\<rparr>]\<rparr>"
  have r: "shard_ranges example_externals example_store [0, 1] = Inr ?ranges"
    by (simp add: example_externals_def)
  have w: "workerFunc example_lossy_compactor example_store
        (map (\<lambda>pathRange. \<lparr>Inputs = [0, 1], PathRange = pathRange\<rparr>) ?ranges) = (Inr [7], ?s')"
    by (simp add: example_lossy_compactor_def example_lossy_worker_def example_worker_def)
      (simp add: example_store_def)
  have l: "length [7 :: ID] \<noteq> length ?ranges" by simp
  have m: "int (length [0, 1 :: ID]) \<le> maxFanIn example_lossy_compactor"
    by (simp add: example_lossy_compactor_def)
  note t = shardedCompact_count_mismatch [OF r w l, where fuel = 0]
  from t have 1: "shardedCompact example_lossy_compactor example_externals [0, 1] example_store
       = (Inl (Errorf ''results are a different length than tasks''), ?s')" by blast
  from t m have 2: "DistributedCompactor_Compact (Suc 0) example_lossy_compactor example_externals
        [0, 1] example_store
       = Some (Inl (Errorf ''results are a different length than tasks''), ?s')" by blast
  from r w 1 2 show ?thesis by simp
qed

lemma wrap_int_id: "- (2 ^ 63) \<le> x \<Longrightarrow> x < 2 ^ 63 \<Longrightarrow> wrap_int x = x"
  by (simp add: wrap_int_def)

lemma go_quot_pos:
  assumes "0 \<le> n" and "n < 2 ^ 63" and "0 < d"
  shows "go_quot n d = n div d"
proof -
  have "n sdiv d = n div d"
    using assms by (simp add: signed_divide_int_def sgn_if)
  moreover have "0 \<le> n div d" using assms by (simp add: pos_imp_zdiv_nonneg_iff)
  moreover have "n div d \<le> n" using zdiv_mono2 [of n 1 d] assms by simp
  ultimately show ?thesis using assms(2) by (simp add: go_quot_def wrap_int_id)
qed

lemma childSize_loop_one:
  assumes "2 \<le> n" and "n < 2 ^ 63"
  shows "childSize_loop n 1 1 = None"
proof (rule ccontr)
  assume "childSize_loop n 1 1 \<noteq> None"
  then obtain y where y: "childSize_loop n 1 1 = Some y" by blast
  have "childSize_loop n' m c = Some y' \<Longrightarrow> \<not> (m = 1 \<and> c = 1 \<and> 2 \<le> n' \<and> n' < 2 ^ 63)"
    for n' m c y'
  proof (induction rule: childSize_loop.raw_induct [rotated 1, consumes 1])
    case (1 loop n' m c y')
    show ?case
    proof
      assume a: "m = 1 \<and> c = 1 \<and> 2 \<le> n' \<and> n' < 2 ^ 63"
      then have "go_quot n' c = n'" using go_quot_pos [of n' 1] by simp
      with a "1.hyps" have "loop n' 1 1 = Some y'" by (simp add: wrap_int_def)
      from "1.IH" [OF this] a show False by simp
    qed
  qed
  from this [OF y] assms show False by simp
qed

text \<open>
  C9, amended. \<open>maxFanIn = 1\<close>: for every list of at least two references (a Go slice has
  fewer than \<open>2 ^ 63\<close> elements) the child-size loop never exits, so
  \<open>DistributedCompactor.Compact\<close> does not return, whatever the fuel. \<open>maxFanIn = 0\<close>: for
  every non-empty list the first test of the loop divides by zero and the call panics; it
  does not run forever.
\<close>

theorem Compact_maxFanIn_one_or_zero:
  "(maxFanIn c = 1 \<and> 2 \<le> length ids \<and> int (length ids) < 2 ^ 63 \<longrightarrow>
      childSize_loop (int (length ids)) (maxFanIn c) (maxFanIn c) = None
      \<and> (\<forall>fuel. DistributedCompactor_Compact fuel c ext ids s = None))
   \<and> (maxFanIn c = 0 \<and> 1 \<le> length ids \<longrightarrow>
      childSize_loop (int (length ids)) (maxFanIn c) (maxFanIn c)
        = Some (Inl (Panic ''integer divide by zero''))
      \<and> (\<forall>fuel. DistributedCompactor_Compact (Suc fuel) c ext ids s
            = Some (Inl (Panic ''integer divide by zero''), s)))"
proof -
  have one: "childSize_loop (int (length ids)) (maxFanIn c) (maxFanIn c) = None
      \<and> (\<forall>fuel. DistributedCompactor_Compact fuel c ext ids s = None)"
    if m: "maxFanIn c = 1" and l: "2 \<le> length ids" and b: "int (length ids) < 2 ^ 63"
  proof -
    have loop: "childSize_loop (int (length ids)) (maxFanIn c) (maxFanIn c) = None"
      using childSize_loop_one [of "int (length ids)"] m l b by simp
    have "DistributedCompactor_Compact fuel c ext ids s = None" for fuel
      using loop m l by (cases fuel) simp_all
    with loop show ?thesis by blast
  qed
  have zero: "childSize_loop (int (length ids)) (maxFanIn c) (maxFanIn c)
        = Some (Inl (Panic ''integer divide by zero''))
      \<and> (\<forall>fuel. DistributedCompactor_Compact (Suc fuel) c ext ids s
            = Some (Inl (Panic ''integer divide by zero''), s))"
    if m: "maxFanIn c = 0" and l: "1 \<le> length ids"
  proof -
    have loop: "childSize_loop (int (length ids)) (maxFanIn c) (maxFanIn c)
        = Some (Inl (Panic ''integer divide by zero''))"
      using m by (subst childSize_loop.simps) simp
    then show ?thesis using m l by auto
  qed
  from one zero show ?thesis by blast
qed

text \<open>
  C9, as stated, says that with \<open>maxFanIn \<le> 1\<close> and at least two references the loop never
  exits. With \<open>maxFanIn = 0\<close> and two references the loop's first test divides by zero:
  the call ends in a panic.
\<close>

theorem Compact_maxFanIn_zero_counterexample:
  "maxFanIn (example_compactor 0) \<le> 1 \<and> 2 \<le> length [0, 1 :: ID]
   \<and> childSize_loop (int (length [0, 1 :: ID])) (maxFanIn (example_compactor 0))
        (maxFanIn (example_compactor 0)) \<noteq> None
   \<and> DistributedCompactor_Compact (Suc 0) (example_compactor 0) example_externals [0, 1] example_store
       = Some (Inl (Panic ''integer divide by zero''), example_store)"
  by (simp add: example_compactor_def childSize_loop.simps)

theorem Compact_maxFanIn_one_or_zero_witness:
  "maxFanIn (example_compactor 1) = 1 \<and> 2 \<le> length [0, 1 :: ID]
   \<and> DistributedCompactor_Compact 5 (example_compactor 1) example_externals [0, 1] example_store = None
   \<and> maxFanIn (example_compactor 0) = 0 \<and> 1 \<le> length [6 :: ID]
   \<and> DistributedCompactor_Compact 5 (example_compactor 0) example_externals [6] example_store
       = Some (Inl (Panic ''integer divide by zero''), example_store)"
proof -
  note one = Compact_maxFanIn_one_or_zero [of "example_compactor 1" "[0, 1]" example_externals
      example_store, THEN conjunct1, rule_format]
  note zero = Compact_maxFanIn_one_or_zero [of "example_compactor 0" "[6]" example_externals
      example_store, THEN conjunct2, rule_format]
  have a: "maxFanIn (example_compactor 1) = 1 \<and> 2 \<le> length [0, 1 :: ID]
      \<and> int (length [0, 1 :: ID]) < 2 ^ 63"
    by (simp add: example_compactor_def)
  have b: "maxFanIn (example_compactor 0) = 0 \<and> 1 \<le> length [6 :: ID]"
    by (simp add: example_compactor_def)
  from one [OF a]
  have 1: "DistributedCompactor_Compact 5 (example_compactor 1) example_externals [0, 1] example_store
      = None" by blast
  from zero [OF b]
  have "DistributedCompactor_Compact (Suc 4) (example_compactor 0) example_externals [6] example_store
       = Some (Inl (Panic ''integer divide by zero''), example_store)" by blast
  then have 2: "DistributedCompactor_Compact 5 (example_compactor 0) example_externals [6] example_store
       = Some (Inl (Panic ''integer divide by zero''), example_store)"
    by (simp only: eval_nat_numeral)
  from a b 1 2 show ?thesis by blast
qed

subsection \<open>The child-group size\<close>









end
